theory Spec2Isabelle
  imports Complex_Main "HOL-Library.Multiset"
begin

section \<open>Platform model: the JavaScript Date object\<close>

text \<open>
  A Date is represented by its local calendar fields: the full year, the month numbered
  from 0 (January) to 11 (December), the day of the month from 1, and the milliseconds
  elapsed within that day. The transactions store a date as the ISO string produced by
  \<^verbatim>\<open>toISOString()\<close> and read it back with \<^verbatim>\<open>new Date(string)\<close>; the two conversions are
  inverse to each other on instants, so the stored string is represented by the same
  record. The local time zone is taken to have a fixed offset (no daylight-saving gaps).
\<close>

record jsdate =
  fullYear :: int
  month :: int
  dayOfMonth :: int
  msInDay :: int

definition getFullYear :: "jsdate \<Rightarrow> int" where
  "getFullYear d = fullYear d"

definition getMonth :: "jsdate \<Rightarrow> int" where
  "getMonth d = month d"

definition getDate :: "jsdate \<Rightarrow> int" where
  "getDate d = dayOfMonth d"

definition isLeapYear :: "int \<Rightarrow> bool" where
  "isLeapYear y = (y mod 4 = 0 \<and> (y mod 100 \<noteq> 0 \<or> y mod 400 = 0))"

definition daysInMonth :: "int \<Rightarrow> int \<Rightarrow> int" where
  "daysInMonth y m =
     (if m = 1 then (if isLeapYear y then 29 else 28)
      else if m = 3 \<or> m = 5 \<or> m = 8 \<or> m = 10 then 30
      else 31)"

text \<open>
  ECMAScript's \<^verbatim>\<open>MakeDay(year, month, date)\<close> takes the first day of month
  \<open>month mod 12\<close> of year \<open>year + floor(month / 12)\<close> and moves \<open>date - 1\<close> days on from
  it. On calendar fields, for a day of the month between 1 and 31: the day is kept when
  the target month has it, and otherwise the excess rolls over into the following month.
\<close>

definition MakeDay :: "int \<Rightarrow> int \<Rightarrow> int \<Rightarrow> int \<times> int \<times> int" where
  "MakeDay y m dt =
     (let ym = y + m div 12;
          mn = m mod 12;
          len = daysInMonth ym mn
      in if dt \<le> len then (ym, mn, dt)
         else if mn = 11 then (ym + 1, 0, dt - len)
         else (ym, mn + 1, dt - len))"

definition withDay :: "jsdate \<Rightarrow> int \<times> int \<times> int \<Rightarrow> jsdate" where
  "withDay d ymd =
     (case ymd of (y, m, dt) \<Rightarrow> d\<lparr>fullYear := y, month := m, dayOfMonth := dt\<rparr>)"

definition setMonth :: "jsdate \<Rightarrow> int \<Rightarrow> jsdate" where
  "setMonth d m = withDay d (MakeDay (getFullYear d) m (getDate d))"

definition setDate :: "jsdate \<Rightarrow> int \<Rightarrow> jsdate" where
  "setDate d dt = withDay d (MakeDay (getFullYear d) (getMonth d) dt)"

definition setFullYear :: "jsdate \<Rightarrow> int \<Rightarrow> int \<Rightarrow> int \<Rightarrow> jsdate" where
  "setFullYear d y m dt = withDay d (MakeDay y m dt)"

text \<open>
  \<^verbatim>\<open>getTime()\<close>: the time value, from ECMAScript's \<^verbatim>\<open>DayFromYear\<close> and the day
  number of the month's first day within its year.
\<close>

definition DayFromYear :: "int \<Rightarrow> int" where
  "DayFromYear y =
     365 * (y - 1970) + (y - 1969) div 4 - (y - 1901) div 100 + (y - 1601) div 400"

definition dayWithinYearOfMonth :: "int \<Rightarrow> int \<Rightarrow> int" where
  "dayWithinYearOfMonth y m =
     (let leap = (if isLeapYear y then 1 else 0)
      in if m = 0 then 0
         else if m = 1 then 31
         else if m = 2 then 59 + leap
         else if m = 3 then 90 + leap
         else if m = 4 then 120 + leap
         else if m = 5 then 151 + leap
         else if m = 6 then 181 + leap
         else if m = 7 then 212 + leap
         else if m = 8 then 243 + leap
         else if m = 9 then 273 + leap
         else if m = 10 then 304 + leap
         else 334 + leap)"

definition msPerDay :: int where
  "msPerDay = 86400000"

definition getTime :: "jsdate \<Rightarrow> int" where
  "getTime d =
     (DayFromYear (fullYear d) + dayWithinYearOfMonth (fullYear d) (month d)
        + dayOfMonth d - 1) * msPerDay + msInDay d"

section \<open>Platform model: numbers to strings\<close>

definition digitChars :: string where
  "digitChars = ''0123456789''"

function toString_nat :: "nat \<Rightarrow> string" where
  "toString_nat n =
     (if n < 10 then [digitChars ! n]
      else toString_nat (n div 10) @ [digitChars ! (n mod 10)])"
  by pat_completeness auto
termination
  by (relation "measure (\<lambda>n. n)") auto

declare toString_nat.simps [simp del]

definition toString :: "int \<Rightarrow> string" where
  "toString i = (if i < 0 then CHR ''-'' # toString_nat (nat (- i)) else toString_nat (nat i))"

definition padStart :: "string \<Rightarrow> nat \<Rightarrow> char \<Rightarrow> string" where
  "padStart s n c = replicate (n - length s) c @ s"

section \<open>Month keys and month navigation (App)\<close>

text \<open>
  The memoised block of \<^verbatim>\<open>App\<close> that computes \<^verbatim>\<open>currentMonthKey\<close> and
  \<^verbatim>\<open>previousMonthKey\<close> from \<^verbatim>\<open>currentDate\<close>.
\<close>

definition currentMonthKey :: "jsdate \<Rightarrow> string" where
  "currentMonthKey currentDate =
     (let year = getFullYear currentDate;
          month = getMonth currentDate
      in toString year @ ''-'' @ padStart (toString (month + 1)) 2 (CHR ''0''))"

definition previousMonthKey :: "jsdate \<Rightarrow> string" where
  "previousMonthKey currentDate =
     (let prevDate = setMonth currentDate (getMonth currentDate - 1);
          prevYear = getFullYear prevDate;
          prevMonth = getMonth prevDate
      in toString prevYear @ ''-'' @ padStart (toString (prevMonth + 1)) 2 (CHR ''0''))"

text \<open>\<^verbatim>\<open>handleMonthChange\<close>: the state update applied to \<^verbatim>\<open>currentDate\<close>.\<close>

definition handleMonthChange :: "jsdate \<Rightarrow> string \<Rightarrow> jsdate" where
  "handleMonthChange prevDate direction =
     (let newDate = setDate prevDate 1
      in setMonth newDate (getMonth newDate + (if direction = ''next'' then 1 else - 1)))"

text \<open>The selected period, as a count of months: twelve per year plus the month.\<close>

definition monthIndex :: "jsdate \<Rightarrow> int" where
  "monthIndex d = 12 * getFullYear d + getMonth d"

text \<open>The number of days of the month with a given count of months.\<close>

definition monthLength :: "int \<Rightarrow> int" where
  "monthLength M = daysInMonth (M div 12) (M mod 12)"

text \<open>
  The calendar reading of "the date \<open>d\<close> advanced by \<open>k\<close> months is \<open>d'\<close>", with the
  platform's end-of-month rollover: the time within the day is kept; when the month
  \<open>k\<close> months on has the day of \<open>d\<close>, the count of months moves on by exactly \<open>k\<close> and the
  day is kept; when that month is too short, \<open>d'\<close> lies in the month after it, on the day
  numbered by the excess.
\<close>

definition advancedByMonths :: "jsdate \<Rightarrow> int \<Rightarrow> jsdate \<Rightarrow> bool" where
  "advancedByMonths d k d' =
     (0 \<le> getMonth d' \<and> getMonth d' < 12 \<and> msInDay d' = msInDay d
      \<and> (if getDate d \<le> monthLength (monthIndex d + k)
          then monthIndex d' = monthIndex d + k \<and> getDate d' = getDate d
          else monthIndex d' = monthIndex d + k + 1
               \<and> getDate d' = getDate d - monthLength (monthIndex d + k)))"

section \<open>Data model\<close>

datatype transaction_type = Income | Expense

text \<open>\<^verbatim>\<open>ExpenseCategoryValues\<close>, the closed enumeration of expense categories.\<close>

datatype category = Household | Groceries | Subscriptions | DiningOut | Travel | Other

definition ExpenseCategoryValues :: "category list" where
  "ExpenseCategoryValues = [Household, Groceries, Subscriptions, DiningOut, Travel, Other]"

type_synonym uuid = string

text \<open>
  The object the transaction form hands to \<^verbatim>\<open>onAddTransaction\<close>: a transaction without
  \<^verbatim>\<open>id\<close> and \<^verbatim>\<open>recurringId\<close>. An absent (\<^verbatim>\<open>undefined\<close>) property is \<open>None\<close>.
\<close>

record draft =
  description :: string
  amount :: real
  type_t :: transaction_type
  category :: "category option"
  date :: jsdate

record transaction = draft +
  id_t :: uuid
  recurringId :: "uuid option"

text \<open>JavaScript truthiness of an optional string: present and not empty.\<close>

definition truthy :: "string option \<Rightarrow> bool" where
  "truthy s = (s \<noteq> None \<and> s \<noteq> Some [])"

section \<open>Adding transactions (App.handleAddTransaction)\<close>

text \<open>
  \<^verbatim>\<open>uuidv4\<close> is the external generator: \<open>uuidv4 k\<close> is the value its \<open>k\<close>-th call returns
  during one run of the handler, counted from 0. With a positive recurrence the first
  call yields the group identifier and the call in round \<open>i\<close> of the loop is call \<open>i + 1\<close>.
\<close>

function addLoop ::
  "(nat \<Rightarrow> uuid) \<Rightarrow> draft \<Rightarrow> int \<Rightarrow> uuid \<Rightarrow> int \<Rightarrow> transaction list \<Rightarrow> transaction list"
where
  "addLoop uuidv4 transaction recurrence rid i newTransactions =
     (if i \<le> recurrence then
        addLoop uuidv4 transaction recurrence rid (i + 1)
          (newTransactions @
            [\<lparr>description = description transaction, amount = amount transaction,
              type_t = type_t transaction, category = category transaction,
              date = setMonth (date transaction) (getMonth (date transaction) + i),
              id_t = uuidv4 (nat i + 1), recurringId = Some rid\<rparr>])
      else newTransactions)"
  by pat_completeness auto
termination
  by (relation "measure (\<lambda>(uuidv4, transaction, recurrence, rid, i, newTransactions).
        nat (recurrence + 1 - i))") auto

declare addLoop.simps [simp del]

definition handleAddTransaction ::
  "(nat \<Rightarrow> uuid) \<Rightarrow> transaction list \<Rightarrow> draft \<Rightarrow> int \<Rightarrow> transaction list"
where
  "handleAddTransaction uuidv4 prev transaction recurrence =
     (if recurrence > 0 then
        prev @ addLoop uuidv4 transaction recurrence (uuidv4 0) 0 []
      else
        prev @ [\<lparr>description = description transaction, amount = amount transaction,
                 type_t = type_t transaction, category = category transaction,
                 date = date transaction,
                 id_t = uuidv4 0, recurringId = None\<rparr>])"

section \<open>Editing transactions (App.handleUpdateTransaction)\<close>

text \<open>
  The occurrences rewritten by an edit with scope \<^verbatim>\<open>'future'\<close>: the members of the edited
  transaction's group dated at or after the original date, in chronological order.
  \<^verbatim>\<open>Array.prototype.sort\<close> is stable, as \<open>sort_key\<close> is.
\<close>

definition futureTransactions :: "transaction list \<Rightarrow> uuid option \<Rightarrow> jsdate \<Rightarrow> transaction list"
where
  "futureTransactions prev rid originalTransactionDate =
     sort_key (\<lambda>t. getTime (date t))
       (filter (\<lambda>t. recurringId t = rid
                    \<and> getTime (date t) \<ge> getTime originalTransactionDate) prev)"

definition updatedOccurrence :: "transaction \<Rightarrow> transaction \<Rightarrow> nat \<Rightarrow> transaction" where
  "updatedOccurrence updatedTransaction t index =
     t\<lparr>description := description updatedTransaction,
       amount := amount updatedTransaction,
       type_t := type_t updatedTransaction,
       category := category updatedTransaction,
       date := setMonth (date updatedTransaction)
                 (getMonth (date updatedTransaction) + int index)\<rparr>"

definition updatedFutureTransactions ::
  "transaction list \<Rightarrow> transaction \<Rightarrow> jsdate \<Rightarrow> transaction list"
where
  "updatedFutureTransactions prev updatedTransaction originalTransactionDate =
     map (\<lambda>(index, t). updatedOccurrence updatedTransaction t index)
       (enumerate 0
          (futureTransactions prev (recurringId updatedTransaction) originalTransactionDate))"

definition handleUpdateTransaction ::
  "transaction list \<Rightarrow> transaction \<Rightarrow> string \<Rightarrow> transaction list"
where
  "handleUpdateTransaction transactions updatedTransaction scope =
     (if scope = ''future'' \<and> truthy (recurringId updatedTransaction) then
        (case find (\<lambda>t. id_t t = id_t updatedTransaction) transactions of
           None \<Rightarrow> transactions
         | Some originalTransaction \<Rightarrow>
             map (\<lambda>t. case find (\<lambda>uft. id_t uft = id_t t)
                              (updatedFutureTransactions transactions updatedTransaction
                                 (date originalTransaction)) of
                         Some updatedVersion \<Rightarrow> updatedVersion
                       | None \<Rightarrow> t)
               transactions)
      else
        map (\<lambda>t. if id_t t = id_t updatedTransaction then updatedTransaction else t)
          transactions)"

section \<open>Deleting transactions (App.handleDeleteTransaction)\<close>

text \<open>
  \<open>confirmed\<close> is the answer of the confirmation dialog: \<open>True\<close> for "all future
  occurrences", \<open>False\<close> for "only this one". The dialog is shown only for a transaction
  with a group identifier.
\<close>

definition handleDeleteTransaction ::
  "transaction list \<Rightarrow> uuid \<Rightarrow> uuid option \<Rightarrow> bool \<Rightarrow> transaction list"
where
  "handleDeleteTransaction transactions ident rid confirmed =
     (if truthy rid then
        (if confirmed then
           (case find (\<lambda>t. id_t t = ident) transactions of
              None \<Rightarrow> transactions
            | Some transactionToDelete \<Rightarrow>
                filter (\<lambda>t. \<not> (recurringId t = rid
                               \<and> getTime (date t) \<ge> getTime (date transactionToDelete)))
                  transactions)
         else filter (\<lambda>t. id_t t \<noteq> ident) transactions)
      else filter (\<lambda>t. id_t t \<noteq> ident) transactions)"

section \<open>The entry forms (TransactionForm, EditTransactionModal)\<close>

text \<open>
  A form handler either sets the inline error message and returns, or raises, or calls
  the operation it was given with the arguments recorded here.
\<close>

datatype 'a submission = Rejected string | Raised | Invoked 'a

definition validationMessage :: string where
  "validationMessage = ''Please enter a valid description and positive amount.''"

record transactionForm =
  descriptionInput :: string
  amountInput :: string
  typeInput :: transaction_type
  categoryInput :: category
  isRecurring :: bool
  recurrence :: int

text \<open>
  \<^verbatim>\<open>parseFloat\<close> is the platform's parser; \<open>None\<close> stands for \<^verbatim>\<open>NaN\<close>. The test
  \<^verbatim>\<open>!numericAmount\<close> holds for \<^verbatim>\<open>NaN\<close> and for zero.
\<close>

definition handleSubmit ::
  "(string \<Rightarrow> real option) \<Rightarrow> transactionForm \<Rightarrow> jsdate \<Rightarrow> (draft \<times> int) submission"
where
  "handleSubmit parseFloat form currentDate =
     (case parseFloat (amountInput form) of
        None \<Rightarrow> Rejected validationMessage
      | Some numericAmount \<Rightarrow>
          if descriptionInput form = [] \<or> numericAmount = 0 \<or> numericAmount \<le> 0
          then Rejected validationMessage
          else Invoked
            (\<lparr>description = descriptionInput form, amount = numericAmount,
              type_t = typeInput form,
              category = (if typeInput form = Expense then Some (categoryInput form) else None),
              date = currentDate\<rparr>,
             if isRecurring form then recurrence form else 0))"

text \<open>
  The edit modal's date field holds the text of a date input: \<open>Some (year, month, day)\<close>
  for \<^verbatim>\<open>YYYY-MM-DD\<close> with the month counted from 1, and \<open>None\<close> when the field is empty,
  in which case the computed Date is invalid and \<^verbatim>\<open>toISOString()\<close> raises.
\<close>

record editModal =
  descriptionEdit :: string
  amountEdit :: string
  typeEdit :: transaction_type
  categoryEdit :: category
  dateEdit :: "(int \<times> int \<times> int) option"

definition handleUpdate ::
  "(string \<Rightarrow> real option) \<Rightarrow> editModal \<Rightarrow> transaction \<Rightarrow> string
     \<Rightarrow> (transaction \<times> string) submission"
where
  "handleUpdate parseFloat modal transaction scope =
     (case parseFloat (amountEdit modal) of
        None \<Rightarrow> Rejected validationMessage
      | Some numericAmount \<Rightarrow>
          if descriptionEdit modal = [] \<or> numericAmount = 0 \<or> numericAmount \<le> 0
          then Rejected validationMessage
          else
            (case dateEdit modal of
               None \<Rightarrow> Raised
             | Some (year, mon, day) \<Rightarrow>
                 Invoked
                   (transaction\<lparr>description := descriptionEdit modal,
                      amount := numericAmount,
                      type_t := typeEdit modal,
                      category := (if typeEdit modal = Expense
                                   then Some (categoryEdit modal) else None),
                      date := setFullYear (date transaction) year (mon - 1) day\<rparr>,
                    scope)))"

text \<open>The forms wired to the handlers of \<^verbatim>\<open>App\<close>, acting on the stored collection.\<close>

definition submitTransactionForm ::
  "(nat \<Rightarrow> uuid) \<Rightarrow> (string \<Rightarrow> real option) \<Rightarrow> transactionForm \<Rightarrow> jsdate
     \<Rightarrow> transaction list \<Rightarrow> transaction list"
where
  "submitTransactionForm uuidv4 parseFloat form currentDate transactions =
     (case handleSubmit parseFloat form currentDate of
        Invoked (transaction, rec) \<Rightarrow> handleAddTransaction uuidv4 transactions transaction rec
      | _ \<Rightarrow> transactions)"

definition submitEditModal ::
  "(string \<Rightarrow> real option) \<Rightarrow> editModal \<Rightarrow> transaction \<Rightarrow> string
     \<Rightarrow> transaction list \<Rightarrow> transaction list"
where
  "submitEditModal parseFloat modal transaction scope transactions =
     (case handleUpdate parseFloat modal transaction scope of
        Invoked (updatedTransaction, sc) \<Rightarrow>
          handleUpdateTransaction transactions updatedTransaction sc
      | _ \<Rightarrow> transactions)"

text \<open>The invariant of the data model: a positive amount, and a category exactly for expenses.\<close>

definition valid_transaction :: "'a draft_scheme \<Rightarrow> bool" where
  "valid_transaction t = (amount t > 0 \<and> (category t \<noteq> None \<longleftrightarrow> type_t t = Expense))"

section \<open>Budgets and the budget editor (App, BudgetSetup)\<close>

text \<open>
  The \<^verbatim>\<open>recurring\<close> object of a budget has at most the keys \<^verbatim>\<open>incomeGoal\<close>,
  \<^verbatim>\<open>savingsGoal\<close> and \<^verbatim>\<open>expenseBudgets\<close>, the last one an object from categories to flags;
  a key that is absent is \<open>None\<close>.
\<close>

record recurringFlags =
  incomeGoalFlag :: "bool option"
  savingsGoalFlag :: "bool option"
  expenseBudgetsFlags :: "(category \<rightharpoonup> bool) option"

record budget =
  incomeGoal :: real
  savingsGoal :: real
  expenseBudgets :: "category \<rightharpoonup> real"
  recurring :: "recurringFlags option"

text \<open>The empty object \<^verbatim>\<open>{}\<close> as a \<^verbatim>\<open>recurring\<close> map.\<close>

definition noFlags :: recurringFlags where
  "noFlags = \<lparr>incomeGoalFlag = None, savingsGoalFlag = None, expenseBudgetsFlags = None\<rparr>"

definition emptyBudget :: budget where
  "emptyBudget =
     \<lparr>incomeGoal = 5000, savingsGoal = 500,
      expenseBudgets = (\<lambda>cat. Some 0),
      recurring = Some noFlags\<rparr>"

text \<open>\<^verbatim>\<open>Object.keys(recurring).length\<close>\<close>

definition keyCount :: "recurringFlags \<Rightarrow> nat" where
  "keyCount r =
     (if incomeGoalFlag r = None then 0 else 1) + (if savingsGoalFlag r = None then 0 else 1)
       + (if expenseBudgetsFlags r = None then 0 else 1)"

definition isInitialDefault :: "budget \<Rightarrow> bool" where
  "isInitialDefault initialBudget =
     (case recurring initialBudget of None \<Rightarrow> True | Some r \<Rightarrow> keyCount r = 0)"

text \<open>
  \<^verbatim>\<open>Object.keys\<close> of an object keyed by categories. The loop over the keys writes each
  key's own entry only, so the order of the keys does not matter to its result.
\<close>

definition objectKeys :: "(category \<rightharpoonup> 'a) \<Rightarrow> category list" where
  "objectKeys obj = filter (\<lambda>cat. obj cat \<noteq> None) ExpenseCategoryValues"

definition carryExpenseBudgets ::
  "(category \<rightharpoonup> bool) \<Rightarrow> (category \<rightharpoonup> real) \<Rightarrow> (category \<rightharpoonup> real)
     \<Rightarrow> (category \<rightharpoonup> real)"
where
  "carryExpenseBudgets flags previousExpenseBudgets newExpenseBudgets =
     fold (\<lambda>cat eb. if flags cat = Some True then eb(cat := previousExpenseBudgets cat) else eb)
       (objectKeys flags) newExpenseBudgets"

text \<open>
  The effect that runs when the budget editor opens: the pair of the editor's draft
  budget and its draft recurring flags. The synthesized draft has no \<^verbatim>\<open>recurring\<close> key
  of its own.
\<close>

definition openBudgetSetup :: "budget \<Rightarrow> budget option \<Rightarrow> budget \<times> recurringFlags" where
  "openBudgetSetup initialBudget previousBudget =
     (case (if isInitialDefault initialBudget
            then (case previousBudget of None \<Rightarrow> None
                  | Some p \<Rightarrow> (case recurring p of None \<Rightarrow> None | Some r \<Rightarrow> Some (p, r)))
            else None) of
        Some (p, r) \<Rightarrow>
          (\<lparr>incomeGoal = (if incomeGoalFlag r = Some True then incomeGoal p
                          else incomeGoal initialBudget),
            savingsGoal = (if savingsGoalFlag r = Some True then savingsGoal p
                           else savingsGoal initialBudget),
            expenseBudgets =
              (case expenseBudgetsFlags r of
                 None \<Rightarrow> expenseBudgets initialBudget
               | Some flags \<Rightarrow>
                   carryExpenseBudgets flags (expenseBudgets p) (expenseBudgets initialBudget)),
            recurring = None\<rparr>,
           r)
      | None \<Rightarrow>
          (initialBudget,
           case recurring initialBudget of None \<Rightarrow> noFlags | Some r \<Rightarrow> r))"

definition currentBudget :: "(string \<rightharpoonup> budget) \<Rightarrow> jsdate \<Rightarrow> budget" where
  "currentBudget budgets currentDate =
     (case budgets (currentMonthKey currentDate) of None \<Rightarrow> emptyBudget | Some b \<Rightarrow> b)"

definition previousBudget :: "(string \<rightharpoonup> budget) \<Rightarrow> jsdate \<Rightarrow> budget option" where
  "previousBudget budgets currentDate = budgets (previousMonthKey currentDate)"

definition openBudgetEditor :: "(string \<rightharpoonup> budget) \<Rightarrow> jsdate \<Rightarrow> budget \<times> recurringFlags" where
  "openBudgetEditor budgets currentDate =
     openBudgetSetup (currentBudget budgets currentDate) (previousBudget budgets currentDate)"

text \<open>Whether a category's flag is set in a \<^verbatim>\<open>recurring\<close> map.\<close>

definition categoryFlagSet :: "recurringFlags \<Rightarrow> category \<Rightarrow> bool" where
  "categoryFlagSet r cat =
     (case expenseBudgetsFlags r of None \<Rightarrow> False | Some flags \<Rightarrow> flags cat = Some True)"

section \<open>Sample data\<close>

definition onDay :: "int \<Rightarrow> int \<Rightarrow> int \<Rightarrow> jsdate" where
  "onDay y m d = \<lparr>fullYear = y, month = m, dayOfMonth = d, msInDay = 36000000\<rparr>"

definition rent :: "uuid \<Rightarrow> jsdate \<Rightarrow> transaction" where
  "rent ident d =
     \<lparr>description = ''Rent'', amount = 1200, type_t = Expense, category = Some Household,
      date = d, id_t = ident, recurringId = Some ''g1''\<rparr>"

definition salary :: transaction where
  "salary =
     \<lparr>description = ''Salary'', amount = 9000, type_t = Income, category = None,
      date = onDay 2024 1 10, id_t = ''s1'', recurringId = None\<rparr>"

definition ledger :: "transaction list" where
  "ledger = [rent ''r0'' (onDay 2024 0 15), rent ''r2'' (onDay 2024 2 15), salary,
             rent ''r1'' (onDay 2024 1 15), rent ''r3'' (onDay 2024 3 15)]"

definition editedRent :: transaction where
  "editedRent =
     \<lparr>description = ''Rent and parking'', amount = 1350, type_t = Expense,
      category = Some Household, date = onDay 2024 1 20, id_t = ''r1'',
      recurringId = Some ''g1''\<rparr>"

definition lateRent :: transaction where
  "lateRent =
     \<lparr>description = ''Rent and parking'', amount = 1350, type_t = Expense,
      category = Some Household, date = onDay 2024 0 31, id_t = ''r1'',
      recurringId = Some ''g1''\<rparr>"

definition coffee :: draft where
  "coffee =
     \<lparr>description = ''Coffee'', amount = 4, type_t = Expense, category = Some DiningOut,
      date = onDay 2024 0 31\<rparr>"

definition sampleUuid :: "nat \<Rightarrow> uuid" where
  "sampleUuid k = replicate (Suc k) (CHR ''u'')"

definition sampleParse :: "string \<Rightarrow> real option" where
  "sampleParse s = (if s = ''12.5'' then Some 12.5 else if s = ''-3'' then Some (- 3) else None)"

definition goodForm :: transactionForm where
  "goodForm =
     \<lparr>descriptionInput = ''Books'', amountInput = ''12.5'', typeInput = Expense,
      categoryInput = Other, isRecurring = True, recurrence = 2\<rparr>"

definition badForm :: transactionForm where
  "badForm =
     \<lparr>descriptionInput = ''Books'', amountInput = ''-3'', typeInput = Expense,
      categoryInput = Other, isRecurring = False, recurrence = 1\<rparr>"

definition goodModal :: editModal where
  "goodModal =
     \<lparr>descriptionEdit = ''Bonus'', amountEdit = ''12.5'', typeEdit = Income,
      categoryEdit = Groceries, dateEdit = Some (2024, 2, 20)\<rparr>"

definition badModal :: editModal where
  "badModal =
     \<lparr>descriptionEdit = [], amountEdit = ''12.5'', typeEdit = Income,
      categoryEdit = Groceries, dateEdit = Some (2024, 2, 20)\<rparr>"

definition aprilFlags :: recurringFlags where
  "aprilFlags = noFlags\<lparr>savingsGoalFlag := Some True\<rparr>"

definition aprilBudget :: budget where
  "aprilBudget =
     \<lparr>incomeGoal = 6000, savingsGoal = 600, expenseBudgets = (\<lambda>cat. Some 100),
      recurring = Some aprilFlags\<rparr>"

definition mayBudget :: budget where
  "mayBudget =
     \<lparr>incomeGoal = 7000, savingsGoal = 700, expenseBudgets = (\<lambda>cat. Some 50),
      recurring = Some noFlags\<rparr>"

definition storedBudgets :: "string \<rightharpoonup> budget" where
  "storedBudgets = [''2024-04'' \<mapsto> aprilBudget, ''2024-05'' \<mapsto> mayBudget]"

section \<open>Properties of the date model\<close>

lemma daysInMonth_ge_1: "1 \<le> daysInMonth y m"
  by (simp add: daysInMonth_def)

lemma MakeDay_first: "MakeDay y m 1 = (y + m div 12, m mod 12, 1)"
  using daysInMonth_ge_1 [of "y + m div 12" "m mod 12"]
  by (simp add: MakeDay_def Let_def)

lemma setDate_first:
  "setDate d 1 = d\<lparr>fullYear := fullYear d + month d div 12, month := month d mod 12,
                   dayOfMonth := 1\<rparr>"
  by (simp add: setDate_def withDay_def MakeDay_first getFullYear_def getMonth_def)

lemma handleMonthChange_fields:
  "handleMonthChange d direction =
     (let k = month d mod 12 + (if direction = ''next'' then 1 else - 1)
      in d\<lparr>fullYear := fullYear d + month d div 12 + k div 12, month := k mod 12,
            dayOfMonth := 1\<rparr>)"
  by (simp add: handleMonthChange_def Let_def setDate_first setMonth_def withDay_def
      MakeDay_first getFullYear_def getMonth_def getDate_def)

lemma monthLength_target:
  "monthLength (12 * y + m) = daysInMonth (y + m div 12) (m mod 12)"
  by (simp add: monthLength_def)

lemma setMonth_fits:
  assumes "dayOfMonth d \<le> monthLength (12 * fullYear d + m)"
  shows "setMonth d m = d\<lparr>fullYear := (12 * fullYear d + m) div 12,
                           month := (12 * fullYear d + m) mod 12\<rparr>"
  using assms
  by (simp add: monthLength_target setMonth_def withDay_def MakeDay_def Let_def
      getFullYear_def getDate_def)

lemma setMonth_rolls_over:
  assumes "monthLength (12 * fullYear d + m) < dayOfMonth d"
  shows "setMonth d m =
     d\<lparr>fullYear := (12 * fullYear d + m + 1) div 12, month := (12 * fullYear d + m + 1) mod 12,
       dayOfMonth := dayOfMonth d - monthLength (12 * fullYear d + m)\<rparr>"
proof (cases "m mod 12 = 11")
  case True
  then have eq: "12 * fullYear d + m + 1 = 12 * (fullYear d + m div 12 + 1) + 0"
    using mult_div_mod_eq [of 12 m] by simp
  have "(12 * fullYear d + m + 1) div 12 = fullYear d + m div 12 + 1"
    by (rule int_div_pos_eq [OF eq]) simp_all
  moreover have "(12 * fullYear d + m + 1) mod 12 = 0"
    by (rule int_mod_pos_eq [OF eq]) simp_all
  ultimately have "(12 * fullYear d + m + 1) div 12 = fullYear d + m div 12 + 1"
    "(12 * fullYear d + m + 1) mod 12 = 0" by simp_all
  with True assms show ?thesis
    by (simp add: monthLength_target setMonth_def withDay_def MakeDay_def Let_def
        getFullYear_def getDate_def)
next
  case False
  have "0 \<le> m mod 12" "m mod 12 < 12" by simp_all
  with False have r: "0 \<le> m mod 12 + 1" "m mod 12 + 1 < 12" by arith+
  have eq: "12 * fullYear d + m + 1 = 12 * (fullYear d + m div 12) + (m mod 12 + 1)"
    using mult_div_mod_eq [of 12 m] by simp
  have "(12 * fullYear d + m + 1) div 12 = fullYear d + m div 12"
    by (rule int_div_pos_eq [OF eq r])
  moreover have "(12 * fullYear d + m + 1) mod 12 = m mod 12 + 1"
    by (rule int_mod_pos_eq [OF eq r])
  ultimately have "(12 * fullYear d + m + 1) div 12 = fullYear d + m div 12"
    "(12 * fullYear d + m + 1) mod 12 = m mod 12 + 1" by simp_all
  with False assms show ?thesis
    by (simp add: monthLength_target setMonth_def withDay_def MakeDay_def Let_def
        getFullYear_def getDate_def)
qed

lemma setMonth_advanced: "advancedByMonths d k (setMonth d (getMonth d + k))"
proof -
  define M where "M = 12 * fullYear d + (month d + k)"
  have idx: "monthIndex d + k = M"
    by (simp add: M_def monthIndex_def getFullYear_def getMonth_def)
  have rng: "0 \<le> M mod 12" "M mod 12 < 12" "0 \<le> (M + 1) mod 12" "(M + 1) mod 12 < 12"
    by simp_all
  have recomb: "12 * (M div 12) + M mod 12 = M" "12 * ((M + 1) div 12) + (M + 1) mod 12 = M + 1"
    by simp_all
  show ?thesis
  proof (cases "dayOfMonth d \<le> monthLength M")
    case True
    then have "setMonth d (month d + k) = d\<lparr>fullYear := M div 12, month := M mod 12\<rparr>"
      unfolding M_def by (rule setMonth_fits)
    with True rng recomb show ?thesis
      unfolding advancedByMonths_def idx
      by (simp add: getMonth_def getDate_def getFullYear_def monthIndex_def)
  next
    case False
    then have "monthLength M < dayOfMonth d" by simp
    then have "setMonth d (month d + k) =
        d\<lparr>fullYear := (M + 1) div 12, month := (M + 1) mod 12,
          dayOfMonth := dayOfMonth d - monthLength M\<rparr>"
      unfolding M_def by (rule setMonth_rolls_over)
    with False rng recomb show ?thesis
      unfolding advancedByMonths_def idx
      by (simp add: getMonth_def getDate_def getFullYear_def monthIndex_def)
  qed
qed

section \<open>Properties of the handlers\<close>

lemma addLoop_eq:
  "addLoop uuidv4 tr R rid i acc =
     acc @ map (\<lambda>j. \<lparr>description = description tr, amount = amount tr,
              type_t = type_t tr, category = category tr,
              date = setMonth (date tr) (getMonth (date tr) + j),
              id_t = uuidv4 (nat j + 1), recurringId = Some rid\<rparr>) [i..R]"
proof (induction uuidv4 tr R rid i acc rule: addLoop.induct)
  case (1 uuidv4 tr R rid i acc)
  show ?case
  proof (cases "i \<le> R")
    case True
    then have "[i..R] = i # [i + 1..R]" by (simp add: upto_rec1)
    with True 1 show ?thesis by (subst addLoop.simps) simp
  next
    case False
    then show ?thesis by (subst addLoop.simps) simp
  qed
qed

lemma addLoop_length: "0 \<le> R \<Longrightarrow> length (addLoop uuidv4 tr R rid 0 []) = nat R + 1"
  by (simp add: addLoop_eq nat_add_distrib)

lemma addLoop_nth:
  assumes "0 \<le> R" "i \<le> nat R"
  shows "addLoop uuidv4 tr R rid 0 [] ! i =
     \<lparr>description = description tr, amount = amount tr,
      type_t = type_t tr, category = category tr,
      date = setMonth (date tr) (getMonth (date tr) + int i),
      id_t = uuidv4 (i + 1), recurringId = Some rid\<rparr>"
proof -
  from assms have "i < length [0..R]" by simp
  moreover from assms have "[0..R] ! i = int i" by (simp add: nth_upto)
  ultimately show ?thesis by (simp add: addLoop_eq)
qed

lemma addLoop_ids:
  "map id_t (addLoop uuidv4 tr R rid 0 []) = map (\<lambda>j. uuidv4 (nat j + 1)) [0..R]"
  by (simp add: addLoop_eq comp_def)

lemma addLoop_ids_distinct:
  assumes "inj_on uuidv4 {0..nat R + 1}"
  shows "distinct (map id_t (addLoop uuidv4 tr R rid 0 []))"
proof -
  have "inj_on (\<lambda>j. uuidv4 (nat j + 1)) (set [0..R])"
  proof (rule inj_onI)
    fix x y assume x: "x \<in> set [0..R]" and y: "y \<in> set [0..R]"
      and eq: "uuidv4 (nat x + 1) = uuidv4 (nat y + 1)"
    from x y have "nat x + 1 \<in> {0..nat R + 1}" "nat y + 1 \<in> {0..nat R + 1}" by auto
    with assms eq have "nat x + 1 = nat y + 1" by (auto dest: inj_onD)
    moreover from x y have "0 \<le> x" "0 \<le> y" by simp_all
    ultimately show "x = y" by arith
  qed
  then show ?thesis by (simp add: addLoop_ids distinct_map)
qed

lemma addLoop_ids_range:
  "set (map id_t (addLoop uuidv4 tr R rid 0 [])) \<subseteq> uuidv4 ` {0..nat R + 1}"
  by (auto simp: addLoop_ids)


lemma filter_id_remove1:
  "distinct (map f xs) \<Longrightarrow> x \<in> set xs \<Longrightarrow> filter (\<lambda>t. f t \<noteq> f x) xs = remove1 x xs"
proof (induction xs)
  case Nil
  then show ?case by simp
next
  case (Cons a xs)
  show ?case
  proof (cases "a = x")
    case True
    with Cons.prems have "f x \<notin> f ` set xs" by simp
    then have "\<forall>t\<in>set xs. f t \<noteq> f x" by (metis imageI)
    then have "filter (\<lambda>t. f t \<noteq> f x) xs = xs" by (simp add: filter_id_conv)
    with True show ?thesis by simp
  next
    case False
    with Cons.prems have "x \<in> set xs" "f a \<noteq> f x" by auto
    with Cons False show ?thesis by simp
  qed
qed

lemma find_by_key:
  assumes "distinct (map f xs)" "x \<in> set xs"
  shows "find (\<lambda>t. f t = f x) xs = Some x"
  using assms
proof (induction xs)
  case Nil
  then show ?case by simp
next
  case (Cons a xs)
  show ?case
  proof (cases "a = x")
    case True
    then show ?thesis by simp
  next
    case False
    with Cons.prems have "x \<in> set xs" "f a \<notin> f ` set xs" by auto
    then have "f a \<noteq> f x" by (metis imageI)
    with Cons \<open>x \<in> set xs\<close> show ?thesis by simp
  qed
qed

lemma find_id_None: "ident \<notin> id_t ` set ts \<Longrightarrow> find (\<lambda>t. id_t t = ident) ts = None"
  by (auto simp: find_None_iff)

lemma delete_absent:
  assumes "ident \<notin> id_t ` set ts"
  shows "handleDeleteTransaction ts ident rid confirmed = ts"
proof -
  have "\<forall>t\<in>set ts. id_t t \<noteq> ident" using assms by (metis imageI)
  then have "filter (\<lambda>t. id_t t \<noteq> ident) ts = ts"
    by (simp add: filter_id_conv)
  then show ?thesis
    using assms by (simp add: handleDeleteTransaction_def find_id_None)
qed

lemma update_absent:
  assumes "id_t u \<notin> id_t ` set ts"
  shows "handleUpdateTransaction ts u scope = ts"
proof -
  have "\<forall>t\<in>set ts. id_t t \<noteq> id_t u" using assms by (metis imageI)
  then have "map (\<lambda>t. if id_t t = id_t u then u else t) ts = ts"
    by (intro map_idI) simp
  then show ?thesis
    using assms by (simp add: handleUpdateTransaction_def find_id_None)
qed

subsection \<open>The invariant along the handlers\<close>

lemma handleAdd_valid:
  assumes "valid_transaction d" "list_all valid_transaction ts"
  shows "list_all valid_transaction (handleAddTransaction u ts d R)"
proof -
  have occ: "valid_transaction \<lparr>description = description d, amount = amount d,
              type_t = type_t d, category = category d, date = dt,
              id_t = i, recurringId = r\<rparr>" for dt i r
    using assms(1) by (simp add: valid_transaction_def)
  show ?thesis
  proof (cases "R > 0")
    case True
    then have "handleAddTransaction u ts d R = ts @ addLoop u d R (u 0) 0 []"
      by (simp add: handleAddTransaction_def)
    moreover have "list_all valid_transaction (addLoop u d R (u 0) 0 [])"
      unfolding addLoop_eq list_all_iff using occ by auto
    ultimately show ?thesis using assms(2) by simp
  next
    case False
    then show ?thesis using assms(2) occ by (simp add: handleAddTransaction_def)
  qed
qed

lemma handleSubmit_valid:
  "handleSubmit pf form cd = Invoked (d, r) \<Longrightarrow> valid_transaction d"
  by (auto simp: handleSubmit_def valid_transaction_def split: option.splits if_splits)

lemma handleUpdate_Invoked:
  assumes "handleUpdate pf m tr sc = Invoked (u, sc')"
  shows "valid_transaction u \<and> id_t u = id_t tr \<and> recurringId u = recurringId tr \<and> sc' = sc"
proof (cases "pf (amountEdit m)")
  case None
  with assms show ?thesis by (simp add: handleUpdate_def)
next
  case (Some a)
  show ?thesis
  proof (cases "dateEdit m")
    case None
    with assms Some show ?thesis by (simp add: handleUpdate_def split: if_splits)
  next
    case (Some ymd)
    obtain y mo dy where ymd: "ymd = (y, mo, dy)" by (cases ymd) auto
    from assms \<open>pf (amountEdit m) = Some a\<close> Some ymd show ?thesis
      by (auto simp: handleUpdate_def valid_transaction_def split: if_splits)
  qed
qed

lemma updatedFuture_valid:
  assumes "valid_transaction u" "x \<in> set (updatedFutureTransactions ts u d0)"
  shows "valid_transaction x"
  using assms
  by (auto simp: updatedFutureTransactions_def updatedOccurrence_def valid_transaction_def)

lemma handleUpdateTransaction_valid:
  assumes "valid_transaction u" "list_all valid_transaction ts"
  shows "list_all valid_transaction (handleUpdateTransaction ts u scope)"
proof -
  have pick: "valid_transaction (case find P (updatedFutureTransactions ts u d0) of
                              Some v \<Rightarrow> v | None \<Rightarrow> t)"
    if "valid_transaction t" for P d0 t
  proof (cases "find P (updatedFutureTransactions ts u d0)")
    case None
    with that show ?thesis by simp
  next
    case (Some v)
    then have "v \<in> set (updatedFutureTransactions ts u d0)"
      by (auto simp: find_Some_iff)
    with assms(1) Some show ?thesis by (simp add: updatedFuture_valid)
  qed
  have this_one: "list_all valid_transaction
      (map (\<lambda>t. if id_t t = id_t u then u else t) ts)"
    using assms by (auto simp: list_all_iff)
  have future: "list_all valid_transaction
      (map (\<lambda>t. case find (\<lambda>uft. id_t uft = id_t t) (updatedFutureTransactions ts u d0) of
                   Some v \<Rightarrow> v | None \<Rightarrow> t) ts)" for d0
    unfolding list_all_iff
  proof
    fix x
    assume "x \<in> set (map (\<lambda>t. case find (\<lambda>uft. id_t uft = id_t t)
                                   (updatedFutureTransactions ts u d0) of
                               Some v \<Rightarrow> v | None \<Rightarrow> t) ts)"
    then obtain t where "t \<in> set ts"
      and x: "x = (case find (\<lambda>uft. id_t uft = id_t t) (updatedFutureTransactions ts u d0) of
                   Some v \<Rightarrow> v | None \<Rightarrow> t)" by auto
    from \<open>t \<in> set ts\<close> assms(2) have "valid_transaction t" by (simp add: list_all_iff)
    then show "valid_transaction x" unfolding x by (rule pick)
  qed
  show ?thesis
  proof (cases "scope = ''future'' \<and> truthy (recurringId u)")
    case False
    then show ?thesis using this_one by (auto simp: handleUpdateTransaction_def)
  next
    case True
    show ?thesis
    proof (cases "find (\<lambda>t. id_t t = id_t u) ts")
      case None
      with True assms(2) show ?thesis by (simp add: handleUpdateTransaction_def)
    next
      case (Some orig)
      with True future [of "date orig"] show ?thesis
        by (simp add: handleUpdateTransaction_def)
    qed
  qed
qed

lemma handleDelete_valid:
  assumes "list_all valid_transaction ts"
  shows "list_all valid_transaction (handleDeleteTransaction ts i rid c)"
proof -
  have "list_all valid_transaction (filter P ts)" for P
    using assms by (simp add: list_all_iff)
  then show ?thesis
    using assms by (simp add: handleDeleteTransaction_def split: option.splits)
qed

subsection \<open>Looking up the rewritten occurrences\<close>

lemma id_t_updatedOccurrence: "id_t (updatedOccurrence u t k) = id_t t"
  by (simp add: updatedOccurrence_def)

lemma find_enumerate_hit:
  assumes "distinct (map f xs)" "k < length xs" "\<And>n t. f (g n t) = f t"
  shows "find (\<lambda>u. f u = f (xs ! k)) (map (\<lambda>(n, t). g n t) (enumerate m xs))
           = Some (g (m + k) (xs ! k))"
  using assms(1,2)
proof (induction xs arbitrary: m k)
  case Nil
  then show ?case by simp
next
  case (Cons a xs)
  show ?case
  proof (cases k)
    case 0
    then show ?thesis by (simp add: assms(3))
  next
    case (Suc j)
    with Cons.prems have j: "j < length xs" and d: "distinct (map f xs)"
      and "f a \<notin> f ` set xs" by auto
    then have "f a \<noteq> f (xs ! j)" by (metis imageI nth_mem)
    with Cons.IH [OF d j, of "Suc m"] Suc show ?thesis by (simp add: assms(3))
  qed
qed

lemma find_enumerate_miss:
  assumes "\<forall>x\<in>set xs. f x \<noteq> a" "\<And>n t. f (g n t) = f t"
  shows "find (\<lambda>u. f u = a) (map (\<lambda>(n, t). g n t) (enumerate m xs)) = None"
  using assms(1)
  by (induction xs arbitrary: m) (simp_all add: assms(2))

lemma set_futureTransactions:
  "set (futureTransactions ts rid d0)
     = {t \<in> set ts. recurringId t = rid \<and> getTime d0 \<le> getTime (date t)}"
  by (auto simp: futureTransactions_def)

lemma mset_futureTransactions:
  "mset (futureTransactions ts rid d0)
     = mset (filter (\<lambda>t. recurringId t = rid \<and> getTime d0 \<le> getTime (date t)) ts)"
  by (simp add: futureTransactions_def)

lemma sorted_futureTransactions:
  "sorted (map (\<lambda>t. getTime (date t)) (futureTransactions ts rid d0))"
  by (simp add: futureTransactions_def)

lemma distinct_futureTransactions:
  assumes "distinct (map id_t ts)"
  shows "distinct (map id_t (futureTransactions ts rid d0))"
proof -
  let ?P = "\<lambda>t. recurringId t = rid \<and> getTime d0 \<le> getTime (date t)"
  have "mset (map id_t (futureTransactions ts rid d0)) = mset (map id_t (filter ?P ts))"
    by (simp add: mset_futureTransactions)
  moreover have "distinct (map id_t (filter ?P ts))"
    using assms by (rule distinct_map_filter)
  ultimately show ?thesis by (metis mset_eq_imp_distinct_iff)
qed

lemma handleUpdateTransaction_future_eq:
  assumes "distinct (map id_t ts)" "truthy (recurringId U)" "orig \<in> set ts" "id_t orig = id_t U"
  shows "handleUpdateTransaction ts U ''future'' =
     map (\<lambda>t. case find (\<lambda>uft. id_t uft = id_t t)
                      (updatedFutureTransactions ts U (date orig)) of
                 Some updatedVersion \<Rightarrow> updatedVersion
               | None \<Rightarrow> t) ts"
proof -
  have "find (\<lambda>t. id_t t = id_t U) ts = Some orig"
    using find_by_key [OF assms(1,3)] assms(4) by simp
  with assms(2) show ?thesis by (simp add: handleUpdateTransaction_def)
qed

lemma lookup_selected:
  assumes ids: "distinct (map id_t ts)"
    and k: "k < length (futureTransactions ts rid d0)"
  shows "find (\<lambda>uft. id_t uft = id_t (futureTransactions ts rid d0 ! k))
           (map (\<lambda>(index, t). updatedOccurrence U t index)
              (enumerate 0 (futureTransactions ts rid d0)))
         = Some (updatedOccurrence U (futureTransactions ts rid d0 ! k) k)"
  using find_enumerate_hit [where f = id_t and g = "\<lambda>n t. updatedOccurrence U t n"
      and m = 0, OF distinct_futureTransactions [OF ids] k]
  by (simp add: id_t_updatedOccurrence)

lemma lookup_not_selected:
  assumes ids: "distinct (map id_t ts)" and t: "t \<in> set ts"
    and nsel: "\<not> (recurringId t = rid \<and> getTime d0 \<le> getTime (date t))"
  shows "find (\<lambda>uft. id_t uft = id_t t)
           (map (\<lambda>(index, t). updatedOccurrence U t index)
              (enumerate 0 (futureTransactions ts rid d0))) = None"
proof -
  have inj: "inj_on id_t (set ts)" using ids by (simp add: distinct_map)
  have "\<forall>x\<in>set (futureTransactions ts rid d0). id_t x \<noteq> id_t t"
  proof
    fix x assume x: "x \<in> set (futureTransactions ts rid d0)"
    then have xs: "x \<in> set ts" and sel: "recurringId x = rid \<and> getTime d0 \<le> getTime (date x)"
      by (simp_all add: set_futureTransactions)
    show "id_t x \<noteq> id_t t"
    proof
      assume "id_t x = id_t t"
      with inj xs t have "x = t" by (auto dest: inj_onD)
      with sel nsel show False by simp
    qed
  qed
  then show ?thesis
    by (rule find_enumerate_miss) (simp add: id_t_updatedOccurrence)
qed

subsection \<open>The budget editor\<close>

lemma fold_carry:
  "fold (\<lambda>cat eb. if flags cat = Some True then eb(cat := pe cat) else eb) cs eb0 c
     = (if c \<in> set cs \<and> flags c = Some True then pe c else eb0 c)"
  by (induction cs arbitrary: eb0) auto

lemma category_listed: "c \<in> set ExpenseCategoryValues"
  by (cases c) (simp_all add: ExpenseCategoryValues_def)

lemma carryExpenseBudgets_apply:
  "carryExpenseBudgets flags pe eb0 c = (if flags c = Some True then pe c else eb0 c)"
  by (auto simp: carryExpenseBudgets_def fold_carry objectKeys_def category_listed)

section \<open>Worked examples\<close>

lemma add_example:
  "handleAddTransaction sampleUuid [] coffee 2 =
     [\<lparr>description = ''Coffee'', amount = 4, type_t = Expense, category = Some DiningOut,
       date = onDay 2024 0 31, id_t = ''uu'', recurringId = Some ''u''\<rparr>,
      \<lparr>description = ''Coffee'', amount = 4, type_t = Expense, category = Some DiningOut,
       date = onDay 2024 2 2, id_t = ''uuu'', recurringId = Some ''u''\<rparr>,
      \<lparr>description = ''Coffee'', amount = 4, type_t = Expense, category = Some DiningOut,
       date = onDay 2024 2 31, id_t = ''uuuu'', recurringId = Some ''u''\<rparr>]"
  by (simp add: handleAddTransaction_def addLoop_eq upto.simps coffee_def sampleUuid_def
      onDay_def setMonth_def withDay_def MakeDay_def getMonth_def getDate_def getFullYear_def
      daysInMonth_def isLeapYear_def Let_def numeral_eq_Suc)

lemma ledger_times:
  "getTime (onDay 2024 0 15) = 1705312800000"
  "getTime (onDay 2024 1 10) = 1707559200000"
  "getTime (onDay 2024 1 15) = 1707991200000"
  "getTime (onDay 2024 2 15) = 1710496800000"
  "getTime (onDay 2024 3 15) = 1713175200000"
  by (simp_all add: getTime_def onDay_def DayFromYear_def dayWithinYearOfMonth_def
      isLeapYear_def msPerDay_def)

lemma ledger_future:
  "futureTransactions ledger (Some ''g1'') (onDay 2024 1 15)
     = [rent ''r1'' (onDay 2024 1 15), rent ''r2'' (onDay 2024 2 15),
        rent ''r3'' (onDay 2024 3 15)]"
  by (simp add: futureTransactions_def ledger_def rent_def salary_def ledger_times)

lemma update_future_example:
  "handleUpdateTransaction ledger editedRent ''future'' =
     [rent ''r0'' (onDay 2024 0 15),
      editedRent\<lparr>id_t := ''r2'', date := onDay 2024 2 20\<rparr>,
      salary,
      editedRent,
      editedRent\<lparr>id_t := ''r3'', date := onDay 2024 3 20\<rparr>]"
proof -
  have f: "find (\<lambda>t. id_t t = id_t editedRent) ledger = Some (rent ''r1'' (onDay 2024 1 15))"
    by (simp add: ledger_def rent_def salary_def editedRent_def)
  have u: "updatedFutureTransactions ledger editedRent (onDay 2024 1 15)
     = [editedRent, editedRent\<lparr>id_t := ''r2'', date := onDay 2024 2 20\<rparr>,
        editedRent\<lparr>id_t := ''r3'', date := onDay 2024 3 20\<rparr>]"
  proof -
    have "recurringId editedRent = Some ''g1''" by (simp add: editedRent_def)
    then have "updatedFutureTransactions ledger editedRent (onDay 2024 1 15)
      = map (\<lambda>(index, t). updatedOccurrence editedRent t index)
          (enumerate 0 [rent ''r1'' (onDay 2024 1 15), rent ''r2'' (onDay 2024 2 15),
                        rent ''r3'' (onDay 2024 3 15)])"
      by (simp add: updatedFutureTransactions_def ledger_future)
    also have "\<dots> = [editedRent, editedRent\<lparr>id_t := ''r2'', date := onDay 2024 2 20\<rparr>,
        editedRent\<lparr>id_t := ''r3'', date := onDay 2024 3 20\<rparr>]"
      by (simp add: updatedOccurrence_def
        editedRent_def rent_def onDay_def setMonth_def withDay_def MakeDay_def getMonth_def
        getDate_def getFullYear_def daysInMonth_def isLeapYear_def Let_def)
    finally show ?thesis .
  qed
  have d: "date (rent ''r1'' (onDay 2024 1 15)) = onDay 2024 1 15" by (simp add: rent_def)
  have g: "truthy (recurringId editedRent)" by (simp add: truthy_def editedRent_def)
  show ?thesis
    unfolding handleUpdateTransaction_def
    using g by (simp add: f d u) (simp add: ledger_def rent_def salary_def editedRent_def)
qed

lemma coffee_dates:
  "setMonth (onDay 2024 0 31) (getMonth (onDay 2024 0 31) + int 0) = onDay 2024 0 31"
  "setMonth (onDay 2024 0 31) (getMonth (onDay 2024 0 31) + int 1) = onDay 2024 2 2"
  "setMonth (onDay 2024 0 31) (getMonth (onDay 2024 0 31) + int 2) = onDay 2024 2 31"
  by (simp_all add: onDay_def setMonth_def withDay_def MakeDay_def getMonth_def getDate_def
      getFullYear_def daysInMonth_def isLeapYear_def Let_def)

lemma rent_dates:
  "setMonth (onDay 2024 1 20) (getMonth (onDay 2024 1 20) + int 1) = onDay 2024 2 20"
  by (simp add: onDay_def setMonth_def withDay_def MakeDay_def getMonth_def getDate_def
      getFullYear_def daysInMonth_def isLeapYear_def Let_def)

lemma update_future_end_of_month_example:
  "handleUpdateTransaction ledger lateRent ''future'' =
     [rent ''r0'' (onDay 2024 0 15),
      lateRent\<lparr>id_t := ''r2'', date := onDay 2024 2 2\<rparr>,
      salary,
      lateRent,
      lateRent\<lparr>id_t := ''r3'', date := onDay 2024 2 31\<rparr>]"
proof -
  have f: "find (\<lambda>t. id_t t = id_t lateRent) ledger = Some (rent ''r1'' (onDay 2024 1 15))"
    by (simp add: ledger_def rent_def salary_def lateRent_def)
  have u: "updatedFutureTransactions ledger lateRent (onDay 2024 1 15)
     = [lateRent, lateRent\<lparr>id_t := ''r2'', date := onDay 2024 2 2\<rparr>,
        lateRent\<lparr>id_t := ''r3'', date := onDay 2024 2 31\<rparr>]"
  proof -
    have "recurringId lateRent = Some ''g1''" by (simp add: lateRent_def)
    then have "updatedFutureTransactions ledger lateRent (onDay 2024 1 15)
      = map (\<lambda>(index, t). updatedOccurrence lateRent t index)
          (enumerate 0 [rent ''r1'' (onDay 2024 1 15), rent ''r2'' (onDay 2024 2 15),
                        rent ''r3'' (onDay 2024 3 15)])"
      by (simp add: updatedFutureTransactions_def ledger_future)
    also have "\<dots> = [lateRent, lateRent\<lparr>id_t := ''r2'', date := onDay 2024 2 2\<rparr>,
        lateRent\<lparr>id_t := ''r3'', date := onDay 2024 2 31\<rparr>]"
      by (simp add: updatedOccurrence_def
        lateRent_def rent_def onDay_def setMonth_def withDay_def MakeDay_def getMonth_def
        getDate_def getFullYear_def daysInMonth_def isLeapYear_def Let_def)
    finally show ?thesis .
  qed
  have d: "date (rent ''r1'' (onDay 2024 1 15)) = onDay 2024 1 15" by (simp add: rent_def)
  have g: "truthy (recurringId lateRent)" by (simp add: truthy_def lateRent_def)
  show ?thesis
    unfolding handleUpdateTransaction_def
    using g by (simp add: f d u) (simp add: ledger_def rent_def salary_def lateRent_def)
qed

lemma may_keys:
  "currentMonthKey (onDay 2024 4 15) = ''2024-05''"
  "previousMonthKey (onDay 2024 4 15) = ''2024-04''"
  by code_simp+

section \<open>Claims\<close>

text \<open>
  C1. Adding a draft with repeat count \<open>R\<close>, where the generator returns identifiers
  that are pairwise distinct and not yet used in the collection. With \<open>R = 0\<close> exactly one
  transaction is appended: the draft's fields unchanged, the generated identifier, and no
  group identifier. With \<open>R \<ge> 1\<close> exactly \<open>R + 1\<close> transactions are appended in one update,
  all carrying the first generated identifier as their group identifier; the occurrence
  at index \<open>i\<close> has its own generated identifier, the draft's other fields, and the
  draft's date advanced by \<open>i\<close> calendar months: the count of months is moved on by exactly
  \<open>i\<close> and the day of the month is kept when the target month has that day, and
  otherwise the date is the excess day in the month after the target month (the
  platform's end-of-month rollover). The transactions already present stay as a prefix
  of the result, and all identifiers of the result are distinct.
\<close>

theorem handleAddTransaction_appends:
  assumes fresh: "uuidv4 ` {0..nat R + 1} \<inter> id_t ` set prev = {}"
    and uniq: "inj_on uuidv4 {0..nat R + 1}"
    and ids: "distinct (map id_t prev)"
  shows "(R = 0 \<longrightarrow>
            handleAddTransaction uuidv4 prev d R =
              prev @ [\<lparr>description = description d, amount = amount d, type_t = type_t d,
                       category = category d, date = date d,
                       id_t = uuidv4 0, recurringId = None\<rparr>])
       \<and> (1 \<le> R \<longrightarrow>
            (\<exists>new. handleAddTransaction uuidv4 prev d R = prev @ new
                 \<and> length new = nat R + 1
                 \<and> (\<forall>i\<le>nat R.
                       new ! i =
                         \<lparr>description = description d, amount = amount d, type_t = type_t d,
                          category = category d,
                          date = setMonth (date d) (getMonth (date d) + int i),
                          id_t = uuidv4 (i + 1), recurringId = Some (uuidv4 0)\<rparr>
                       \<and> advancedByMonths (date d) (int i) (date (new ! i)))))
       \<and> distinct (map id_t (handleAddTransaction uuidv4 prev d R))"
proof (intro conjI impI)
  assume "R = 0"
  then show "handleAddTransaction uuidv4 prev d R =
              prev @ [\<lparr>description = description d, amount = amount d, type_t = type_t d,
                       category = category d, date = date d,
                       id_t = uuidv4 0, recurringId = None\<rparr>]"
    by (simp add: handleAddTransaction_def)
next
  assume R: "1 \<le> R"
  let ?new = "addLoop uuidv4 d R (uuidv4 0) 0 []"
  from R have "handleAddTransaction uuidv4 prev d R = prev @ ?new"
    by (simp add: handleAddTransaction_def)
  moreover from R have "length ?new = nat R + 1" by (simp add: addLoop_length)
  moreover have "\<forall>i\<le>nat R. ?new ! i =
                         \<lparr>description = description d, amount = amount d, type_t = type_t d,
                          category = category d,
                          date = setMonth (date d) (getMonth (date d) + int i),
                          id_t = uuidv4 (i + 1), recurringId = Some (uuidv4 0)\<rparr>
                       \<and> advancedByMonths (date d) (int i) (date (?new ! i))"
  proof (intro allI impI)
    fix i assume i: "i \<le> nat R"
    from R i have nth: "?new ! i =
                         \<lparr>description = description d, amount = amount d, type_t = type_t d,
                          category = category d,
                          date = setMonth (date d) (getMonth (date d) + int i),
                          id_t = uuidv4 (i + 1), recurringId = Some (uuidv4 0)\<rparr>"
      by (simp add: addLoop_nth)
    then have "date (?new ! i) = setMonth (date d) (getMonth (date d) + int i)" by simp
    then have "advancedByMonths (date d) (int i) (date (?new ! i))"
      by (simp add: setMonth_advanced)
    with nth show "?new ! i =
                         \<lparr>description = description d, amount = amount d, type_t = type_t d,
                          category = category d,
                          date = setMonth (date d) (getMonth (date d) + int i),
                          id_t = uuidv4 (i + 1), recurringId = Some (uuidv4 0)\<rparr>
                       \<and> advancedByMonths (date d) (int i) (date (?new ! i))"
      by (rule conjI)
  qed
  ultimately show "\<exists>new. handleAddTransaction uuidv4 prev d R = prev @ new
                 \<and> length new = nat R + 1
                 \<and> (\<forall>i\<le>nat R.
                       new ! i =
                         \<lparr>description = description d, amount = amount d, type_t = type_t d,
                          category = category d,
                          date = setMonth (date d) (getMonth (date d) + int i),
                          id_t = uuidv4 (i + 1), recurringId = Some (uuidv4 0)\<rparr>
                       \<and> advancedByMonths (date d) (int i) (date (new ! i)))"
    by blast
next
  show "distinct (map id_t (handleAddTransaction uuidv4 prev d R))"
  proof (cases "R > 0")
    case True
    let ?new = "addLoop uuidv4 d R (uuidv4 0) 0 []"
    have "set (map id_t ?new) \<subseteq> uuidv4 ` {0..nat R + 1}" by (rule addLoop_ids_range)
    moreover from fresh have "uuidv4 ` {0..nat R + 1} \<inter> set (map id_t prev) = {}" by simp
    ultimately have "set (map id_t prev) \<inter> set (map id_t ?new) = {}" by blast
    with ids addLoop_ids_distinct [OF uniq, of d "uuidv4 0"] True show ?thesis
      by (simp add: handleAddTransaction_def)
  next
    case False
    have "uuidv4 0 \<in> uuidv4 ` {0..nat R + 1}" by simp
    with fresh have "uuidv4 0 \<notin> id_t ` set prev" by blast
    with ids False show ?thesis by (simp add: handleAddTransaction_def)
  qed
qed

theorem handleAddTransaction_appends_witness:
  "sampleUuid ` {0..nat 2 + 1} \<inter> id_t ` set ledger = {}
   \<and> inj_on sampleUuid {0..nat 2 + 1}
   \<and> distinct (map id_t ledger)
   \<and> handleAddTransaction sampleUuid ledger coffee 2 =
       ledger @
       [\<lparr>description = ''Coffee'', amount = 4, type_t = Expense, category = Some DiningOut,
         date = onDay 2024 0 31, id_t = ''uu'', recurringId = Some ''u''\<rparr>,
        \<lparr>description = ''Coffee'', amount = 4, type_t = Expense, category = Some DiningOut,
         date = onDay 2024 2 2, id_t = ''uuu'', recurringId = Some ''u''\<rparr>,
        \<lparr>description = ''Coffee'', amount = 4, type_t = Expense, category = Some DiningOut,
         date = onDay 2024 2 31, id_t = ''uuuu'', recurringId = Some ''u''\<rparr>]
   \<and> advancedByMonths (onDay 2024 0 31) 1 (onDay 2024 2 2)
   \<and> monthLength (monthIndex (onDay 2024 0 31) + 1) < getDate (onDay 2024 0 31)
   \<and> advancedByMonths (onDay 2024 0 31) 2 (onDay 2024 2 31)
   \<and> getDate (onDay 2024 0 31) \<le> monthLength (monthIndex (onDay 2024 0 31) + 2)
   \<and> distinct (map id_t (handleAddTransaction sampleUuid ledger coffee 2))"
proof -
  have "sampleUuid k \<notin> id_t ` set ledger" for k
    by (simp add: sampleUuid_def ledger_def rent_def salary_def)
  then have h1: "sampleUuid ` {0..nat 2 + 1} \<inter> id_t ` set ledger = {}"
    by blast
  have h2: "inj_on sampleUuid {0..nat 2 + 1}"
    by (simp add: inj_on_def sampleUuid_def)
  have h3: "distinct (map id_t ledger)"
    by (simp add: ledger_def rent_def salary_def)
  have one: "(1::int) \<le> 2" by simp
  note inst = handleAddTransaction_appends [OF h1 h2 h3, of coffee]
  note d = inst [THEN conjunct2, THEN conjunct2]
  from inst [THEN conjunct2, THEN conjunct1, THEN mp, OF one]
  obtain new where new: "handleAddTransaction sampleUuid ledger coffee 2 = ledger @ new"
      "length new = nat 2 + 1"
      and each: "\<forall>i\<le>nat 2. new ! i =
                  \<lparr>description = description coffee, amount = amount coffee,
                   type_t = type_t coffee, category = category coffee,
                   date = setMonth (date coffee) (getMonth (date coffee) + int i),
                   id_t = sampleUuid (i + 1), recurringId = Some (sampleUuid 0)\<rparr>
                 \<and> advancedByMonths (date coffee) (int i) (date (new ! i))"
    by blast
  have dc: "date coffee = onDay 2024 0 31" by (simp add: coffee_def)
  have n0: "new ! 0 =
      \<lparr>description = ''Coffee'', amount = 4, type_t = Expense, category = Some DiningOut,
       date = onDay 2024 0 31, id_t = ''uu'', recurringId = Some ''u''\<rparr>"
    using each [rule_format, of 0] coffee_dates(1)
    by (simp add: dc) (simp add: coffee_def sampleUuid_def)
  have n1: "new ! 1 =
      \<lparr>description = ''Coffee'', amount = 4, type_t = Expense, category = Some DiningOut,
       date = onDay 2024 2 2, id_t = ''uuu'', recurringId = Some ''u''\<rparr>"
    using each [rule_format, of 1] coffee_dates(2)
    by (simp add: dc) (simp add: coffee_def sampleUuid_def numeral_eq_Suc)
  have n2: "new ! 2 =
      \<lparr>description = ''Coffee'', amount = 4, type_t = Expense, category = Some DiningOut,
       date = onDay 2024 2 31, id_t = ''uuuu'', recurringId = Some ''u''\<rparr>"
    using each [rule_format, of 2] coffee_dates(3)
    by (simp add: dc) (simp add: coffee_def sampleUuid_def numeral_eq_Suc)
  from new(2) have "new = [new ! 0, new ! 1, new ! 2]"
    by (auto simp: list_eq_iff_nth_eq less_Suc_eq numeral_eq_Suc)
  with n0 n1 n2 new(1) have whole: "handleAddTransaction sampleUuid ledger coffee 2 =
       ledger @
       [\<lparr>description = ''Coffee'', amount = 4, type_t = Expense, category = Some DiningOut,
         date = onDay 2024 0 31, id_t = ''uu'', recurringId = Some ''u''\<rparr>,
        \<lparr>description = ''Coffee'', amount = 4, type_t = Expense, category = Some DiningOut,
         date = onDay 2024 2 2, id_t = ''uuu'', recurringId = Some ''u''\<rparr>,
        \<lparr>description = ''Coffee'', amount = 4, type_t = Expense, category = Some DiningOut,
         date = onDay 2024 2 31, id_t = ''uuuu'', recurringId = Some ''u''\<rparr>]"
    by simp
  have le: "(1::nat) \<le> nat 2" "(2::nat) \<le> nat 2" by simp_all
  have "advancedByMonths (date coffee) (int 1) (date (new ! 1))"
    by (rule each [rule_format, OF le(1), THEN conjunct2])
  moreover from n1 have "date (new ! 1) = onDay 2024 2 2" by simp
  ultimately have a1: "advancedByMonths (onDay 2024 0 31) 1 (onDay 2024 2 2)"
    by (simp add: dc)
  have "advancedByMonths (date coffee) (int 2) (date (new ! 2))"
    by (rule each [rule_format, OF le(2), THEN conjunct2])
  moreover from n2 have "date (new ! 2) = onDay 2024 2 31" by simp
  ultimately have a2: "advancedByMonths (onDay 2024 0 31) 2 (onDay 2024 2 31)"
    by (simp add: dc)
  have l1: "monthLength (monthIndex (onDay 2024 0 31) + 1) < getDate (onDay 2024 0 31)"
    by (simp add: monthLength_def monthIndex_def onDay_def getFullYear_def getMonth_def
        getDate_def daysInMonth_def isLeapYear_def)
  have l2: "getDate (onDay 2024 0 31) \<le> monthLength (monthIndex (onDay 2024 0 31) + 2)"
    by (simp add: monthLength_def monthIndex_def onDay_def getFullYear_def getMonth_def
        getDate_def daysInMonth_def isLeapYear_def)
  from h1 h2 h3 whole a1 l1 a2 l2 d show ?thesis by blast
qed

text \<open>
  C2, as the code has it. Editing with scope \<^verbatim>\<open>'future'\<close>, for a collection whose
  identifiers are unique and an edited transaction \<open>U\<close> with a group identifier whose
  identifier belongs to the stored transaction \<open>orig\<close>. The result has the same length,
  and position by position: a member of \<open>U\<close>'s group dated at or after the original date
  of \<open>orig\<close> is replaced by itself with the description, amount, type and category of \<open>U\<close>
  and with the date of \<open>U\<close> advanced by \<open>k\<close> calendar months, where \<open>k\<close> is its index in the
  chronologically sorted list of those members: the count of months is moved on by
  exactly \<open>k\<close> and the day of the month is kept when the target month has that day, and
  otherwise the date is the excess day in the month after the target month. Every other
  transaction (a group member dated earlier, or one outside the group) is unchanged.
  That list is sorted by time and holds exactly the selected members.
\<close>

theorem update_future_rewrites_tail:
  assumes ids: "distinct (map id_t ts)"
    and grp: "truthy (recurringId U)"
    and orig: "orig \<in> set ts" "id_t orig = id_t U"
  shows "length (handleUpdateTransaction ts U ''future'') = length ts
    \<and> (\<forall>i<length ts.
          if recurringId (ts ! i) = recurringId U
               \<and> getTime (date orig) \<le> getTime (date (ts ! i))
          then \<exists>k<length (futureTransactions ts (recurringId U) (date orig)).
                 futureTransactions ts (recurringId U) (date orig) ! k = ts ! i
                 \<and> handleUpdateTransaction ts U ''future'' ! i
                     = (ts ! i)\<lparr>description := description U, amount := amount U,
                          type_t := type_t U, category := category U,
                          date := setMonth (date U) (getMonth (date U) + int k)\<rparr>
                 \<and> advancedByMonths (date U) (int k)
                      (date (handleUpdateTransaction ts U ''future'' ! i))
          else handleUpdateTransaction ts U ''future'' ! i = ts ! i)
    \<and> sorted (map (\<lambda>t. getTime (date t)) (futureTransactions ts (recurringId U) (date orig)))
    \<and> mset (futureTransactions ts (recurringId U) (date orig))
        = mset (filter (\<lambda>t. recurringId t = recurringId U
                          \<and> getTime (date orig) \<le> getTime (date t)) ts)"
proof -
  let ?sel = "futureTransactions ts (recurringId U) (date orig)"
  let ?res = "handleUpdateTransaction ts U ''future''"
  note eq = handleUpdateTransaction_future_eq [OF ids grp orig]
  have len: "length ?res = length ts" by (simp add: eq)
  have pointwise: "if recurringId (ts ! i) = recurringId U
               \<and> getTime (date orig) \<le> getTime (date (ts ! i))
          then \<exists>k<length ?sel. ?sel ! k = ts ! i
                 \<and> ?res ! i
                     = (ts ! i)\<lparr>description := description U, amount := amount U,
                          type_t := type_t U, category := category U,
                          date := setMonth (date U) (getMonth (date U) + int k)\<rparr>
                 \<and> advancedByMonths (date U) (int k) (date (?res ! i))
          else ?res ! i = ts ! i" if i: "i < length ts" for i
  proof (cases "recurringId (ts ! i) = recurringId U
               \<and> getTime (date orig) \<le> getTime (date (ts ! i))")
    case True
    with i have "ts ! i \<in> set ?sel" by (simp add: set_futureTransactions)
    then obtain k where k: "k < length ?sel" "?sel ! k = ts ! i"
      by (auto simp: in_set_conv_nth)
    from lookup_selected [OF ids k(1), of U] k(2) i
    have "?res ! i = updatedOccurrence U (ts ! i) k"
      by (simp add: eq updatedFutureTransactions_def)
    then have r: "?res ! i
                     = (ts ! i)\<lparr>description := description U, amount := amount U,
                          type_t := type_t U, category := category U,
                          date := setMonth (date U) (getMonth (date U) + int k)\<rparr>"
      by (simp add: updatedOccurrence_def)
    then have "date (?res ! i) = setMonth (date U) (getMonth (date U) + int k)"
      by simp
    then have "advancedByMonths (date U) (int k) (date (?res ! i))"
      by (simp add: setMonth_advanced)
    with k r have "\<exists>k<length ?sel. ?sel ! k = ts ! i
                 \<and> ?res ! i
                     = (ts ! i)\<lparr>description := description U, amount := amount U,
                          type_t := type_t U, category := category U,
                          date := setMonth (date U) (getMonth (date U) + int k)\<rparr>
                 \<and> advancedByMonths (date U) (int k) (date (?res ! i))"
      by blast
    then show ?thesis by (subst if_P [OF True])
  next
    case False
    from i have "ts ! i \<in> set ts" by simp
    from lookup_not_selected [OF ids this False, of U] i
    have "?res ! i = ts ! i" by (simp add: eq updatedFutureTransactions_def)
    then show ?thesis by (subst if_not_P [OF False])
  qed
  from len pointwise sorted_futureTransactions mset_futureTransactions
  show ?thesis by blast
qed

theorem update_future_rewrites_tail_witness:
  "distinct (map id_t ledger) \<and> truthy (recurringId editedRent)
   \<and> rent ''r1'' (onDay 2024 1 15) \<in> set ledger
   \<and> id_t (rent ''r1'' (onDay 2024 1 15)) = id_t editedRent
   \<and> length (handleUpdateTransaction ledger editedRent ''future'') = length ledger
   \<and> handleUpdateTransaction ledger editedRent ''future'' ! 0 = rent ''r0'' (onDay 2024 0 15)
   \<and> handleUpdateTransaction ledger editedRent ''future'' ! 2 = salary
   \<and> handleUpdateTransaction ledger editedRent ''future'' ! 1
       = editedRent\<lparr>id_t := ''r2'', date := onDay 2024 2 20\<rparr>
   \<and> advancedByMonths (onDay 2024 1 20) 1 (onDay 2024 2 20)
   \<and> getDate (onDay 2024 1 20) \<le> monthLength (monthIndex (onDay 2024 1 20) + 1)
   \<and> sorted (map (\<lambda>t. getTime (date t))
        (futureTransactions ledger (recurringId editedRent)
           (date (rent ''r1'' (onDay 2024 1 15)))))"
proof -
  let ?res = "handleUpdateTransaction ledger editedRent ''future''"
  let ?orig = "rent ''r1'' (onDay 2024 1 15)"
  have h1: "distinct (map id_t ledger)"
    by (simp add: ledger_def rent_def salary_def)
  have h2: "truthy (recurringId editedRent)"
    by (simp add: truthy_def editedRent_def)
  have h3: "?orig \<in> set ledger"
    by (simp add: ledger_def)
  have h4: "id_t ?orig = id_t editedRent"
    by (simp add: rent_def editedRent_def)
  note inst = update_future_rewrites_tail [OF h1 h2 h3 h4]
  have rid: "recurringId editedRent = Some ''g1''" "date ?orig = onDay 2024 1 15"
      "date editedRent = onDay 2024 1 20"
    by (simp_all add: editedRent_def rent_def)
  have sel: "futureTransactions ledger (recurringId editedRent) (date ?orig)
     = [rent ''r1'' (onDay 2024 1 15), rent ''r2'' (onDay 2024 2 15),
        rent ''r3'' (onDay 2024 3 15)]"
    by (simp add: rid ledger_future)
  have len: "length ledger = 5" by (simp add: ledger_def)
  from inst have each: "\<And>i. i < length ledger \<Longrightarrow>
          (if recurringId (ledger ! i) = recurringId editedRent
               \<and> getTime (date ?orig) \<le> getTime (date (ledger ! i))
          then \<exists>k<length (futureTransactions ledger (recurringId editedRent) (date ?orig)).
                 futureTransactions ledger (recurringId editedRent) (date ?orig) ! k = ledger ! i
                 \<and> ?res ! i
                     = (ledger ! i)\<lparr>description := description editedRent,
                          amount := amount editedRent,
                          type_t := type_t editedRent, category := category editedRent,
                          date := setMonth (date editedRent)
                                    (getMonth (date editedRent) + int k)\<rparr>
                 \<and> advancedByMonths (date editedRent) (int k) (date (?res ! i))
          else ?res ! i = ledger ! i)"
    by blast
  have c0: "\<not> (recurringId (ledger ! 0) = recurringId editedRent
               \<and> getTime (date ?orig) \<le> getTime (date (ledger ! 0)))"
    by (simp add: ledger_def rent_def ledger_times)
  have c2: "\<not> (recurringId (ledger ! 2) = recurringId editedRent
               \<and> getTime (date ?orig) \<le> getTime (date (ledger ! 2)))"
    by (simp add: ledger_def rent_def salary_def editedRent_def)
  have c1: "recurringId (ledger ! 1) = recurringId editedRent
               \<and> getTime (date ?orig) \<le> getTime (date (ledger ! 1))"
    by (simp add: ledger_def rent_def editedRent_def ledger_times)
  have lt: "0 < length ledger" "1 < length ledger" "2 < length ledger"
    by (simp_all add: len)
  from each [OF lt(1), unfolded if_not_P [OF c0]]
  have r0: "?res ! 0 = rent ''r0'' (onDay 2024 0 15)"
    by (simp add: ledger_def)
  from each [OF lt(3), unfolded if_not_P [OF c2]]
  have r2: "?res ! 2 = salary"
    by (simp add: ledger_def)
  from each [OF lt(2), unfolded if_P [OF c1]]
  obtain k where kl: "k < length (futureTransactions ledger (recurringId editedRent) (date ?orig))"
    and ks: "futureTransactions ledger (recurringId editedRent) (date ?orig) ! k = ledger ! 1"
    and rk0: "?res ! 1 = (ledger ! 1)\<lparr>description := description editedRent,
                          amount := amount editedRent,
                          type_t := type_t editedRent, category := category editedRent,
                          date := setMonth (date editedRent)
                                    (getMonth (date editedRent) + int k)\<rparr>"
    and ak0: "advancedByMonths (date editedRent) (int k) (date (?res ! 1))"
    by blast
  from kl have k: "k < 3" by (simp add: sel)
  from ks have k2: "[rent ''r1'' (onDay 2024 1 15), rent ''r2'' (onDay 2024 2 15),
        rent ''r3'' (onDay 2024 3 15)] ! k = ledger ! 1"
    by (simp only: sel)
  from rk0 have rk: "?res ! 1 = (ledger ! 1)\<lparr>description := description editedRent,
                          amount := amount editedRent,
                          type_t := type_t editedRent, category := category editedRent,
                          date := setMonth (onDay 2024 1 20)
                                    (getMonth (onDay 2024 1 20) + int k)\<rparr>"
    by (simp only: rid)
  from ak0 have ak: "advancedByMonths (onDay 2024 1 20) (int k) (date (?res ! 1))"
    by (simp only: rid)
  from k have "k = 0 \<or> k = 1 \<or> k = 2" by arith
  with k2 have k1: "k = 1"
    by (auto simp: ledger_def rent_def)
  from rk have r1: "?res ! 1 = editedRent\<lparr>id_t := ''r2'', date := onDay 2024 2 20\<rparr>"
    unfolding k1 rent_dates by (simp add: ledger_def rent_def editedRent_def)
  from ak r1 have a1: "advancedByMonths (onDay 2024 1 20) 1 (onDay 2024 2 20)"
    by (simp add: k1)
  have l1: "getDate (onDay 2024 1 20) \<le> monthLength (monthIndex (onDay 2024 1 20) + 1)"
    by (simp add: monthLength_def monthIndex_def onDay_def getFullYear_def getMonth_def
        getDate_def daysInMonth_def isLeapYear_def)
  from inst h1 h2 h3 h4 r0 r2 r1 a1 l1 show ?thesis by blast
qed

text \<open>
  C2, as stated, fails: the claim gives every rewritten occurrence the edited date moved
  on by exactly its index in months, with no exception. Editing the February rent to
  31 January 2024 with scope \<^verbatim>\<open>'future'\<close> gives the occurrence with index 1 the date
  2 March 2024 (31 February rolls over), two months on from the edited date and not one.
\<close>

theorem update_future_end_of_month_counterexample:
  "distinct (map id_t ledger) \<and> truthy (recurringId lateRent)
   \<and> rent ''r1'' (onDay 2024 1 15) \<in> set ledger
   \<and> id_t (rent ''r1'' (onDay 2024 1 15)) = id_t lateRent
   \<and> futureTransactions ledger (recurringId lateRent) (date (rent ''r1'' (onDay 2024 1 15))) ! 1
       = ledger ! 1
   \<and> date (handleUpdateTransaction ledger lateRent ''future'' ! 1) = onDay 2024 2 2
   \<and> monthIndex (date (handleUpdateTransaction ledger lateRent ''future'' ! 1))
       = monthIndex (date lateRent) + 2
   \<and> monthIndex (date (handleUpdateTransaction ledger lateRent ''future'' ! 1))
       \<noteq> monthIndex (date lateRent) + 1"
proof -
  have h1: "distinct (map id_t ledger)"
    by (simp add: ledger_def rent_def salary_def)
  have h2: "truthy (recurringId lateRent)"
    by (simp add: truthy_def lateRent_def)
  have h3: "rent ''r1'' (onDay 2024 1 15) \<in> set ledger"
    by (simp add: ledger_def)
  have h4: "id_t (rent ''r1'' (onDay 2024 1 15)) = id_t lateRent"
    by (simp add: rent_def lateRent_def)
  have rid: "recurringId lateRent = Some ''g1''"
      "date (rent ''r1'' (onDay 2024 1 15)) = onDay 2024 1 15"
    by (simp_all add: lateRent_def rent_def)
  have s: "futureTransactions ledger (recurringId lateRent)
       (date (rent ''r1'' (onDay 2024 1 15))) ! 1 = ledger ! 1"
    by (simp add: rid ledger_future) (simp add: ledger_def)
  have d: "date (handleUpdateTransaction ledger lateRent ''future'' ! 1) = onDay 2024 2 2"
    by (simp add: update_future_end_of_month_example)
  have m: "monthIndex (onDay 2024 2 2) = monthIndex (date lateRent) + 2"
    by (simp add: monthIndex_def onDay_def lateRent_def getFullYear_def getMonth_def)
  from h1 h2 h3 h4 s d m show ?thesis by simp
qed

text \<open>
  C3. Deleting a stored transaction \<open>target\<close> from a collection with unique identifiers.
  Without a group identifier, and with one under the choice "only this one", the result
  is the collection with exactly \<open>target\<close> removed. With the group identifier of \<open>target\<close>
  under the choice "all future", the result keeps exactly the transactions that are not
  both in \<open>target\<close>'s group and dated at or after \<open>target\<close>'s date, in their order.
\<close>

theorem handleDeleteTransaction_removes:
  assumes ids: "distinct (map id_t ts)" and target: "target \<in> set ts"
  shows "(\<not> truthy rid \<longrightarrow>
            handleDeleteTransaction ts (id_t target) rid confirmed = remove1 target ts)
       \<and> (truthy rid \<longrightarrow>
            handleDeleteTransaction ts (id_t target) rid False = remove1 target ts)
       \<and> (truthy (recurringId target) \<longrightarrow>
            handleDeleteTransaction ts (id_t target) (recurringId target) True =
              filter (\<lambda>t. \<not> (recurringId t = recurringId target
                              \<and> getTime (date target) \<le> getTime (date t))) ts)"
proof -
  have one: "filter (\<lambda>t. id_t t \<noteq> id_t target) ts = remove1 target ts"
    using ids target by (rule filter_id_remove1)
  have found: "find (\<lambda>t. id_t t = id_t target) ts = Some target"
    using ids target by (rule find_by_key)
  show ?thesis
    by (simp add: handleDeleteTransaction_def one found)
qed

theorem handleDeleteTransaction_removes_witness:
  "distinct (map id_t ledger) \<and> rent ''r1'' (onDay 2024 1 15) \<in> set ledger
   \<and> truthy (recurringId (rent ''r1'' (onDay 2024 1 15)))
   \<and> handleDeleteTransaction ledger ''r1'' (Some ''g1'') False
        = [rent ''r0'' (onDay 2024 0 15), rent ''r2'' (onDay 2024 2 15), salary,
           rent ''r3'' (onDay 2024 3 15)]
   \<and> handleDeleteTransaction ledger ''r1'' (Some ''g1'') True
        = [rent ''r0'' (onDay 2024 0 15), salary]"
proof -
  let ?target = "rent ''r1'' (onDay 2024 1 15)"
  have h1: "distinct (map id_t ledger)"
    by (simp add: ledger_def rent_def salary_def)
  have h2: "?target \<in> set ledger"
    by (simp add: ledger_def)
  have h3: "truthy (recurringId ?target)" "truthy (Some ''g1'')"
    by (simp_all add: truthy_def rent_def)
  have r: "recurringId ?target = Some ''g1''" "id_t ?target = ''r1''"
    by (simp_all add: rent_def)
  have t: "getTime (onDay 2024 0 15) < getTime (onDay 2024 1 15)"
      "getTime (onDay 2024 1 15) \<le> getTime (onDay 2024 2 15)"
      "getTime (onDay 2024 1 15) \<le> getTime (onDay 2024 3 15)"
    by (simp_all add: getTime_def onDay_def DayFromYear_def dayWithinYearOfMonth_def
        isLeapYear_def msPerDay_def)
  from handleDeleteTransaction_removes [OF h1 h2, of "Some ''g1''" False] h3 r
  have a: "handleDeleteTransaction ledger ''r1'' (Some ''g1'') False = remove1 ?target ledger"
    by simp
  from handleDeleteTransaction_removes [OF h1 h2, of "Some ''g1''" False] h3 r
  have b: "handleDeleteTransaction ledger ''r1'' (Some ''g1'') True =
              filter (\<lambda>t. \<not> (recurringId t = Some ''g1''
                              \<and> getTime (date ?target) \<le> getTime (date t))) ledger"
    by simp
  have a': "remove1 ?target ledger
        = [rent ''r0'' (onDay 2024 0 15), rent ''r2'' (onDay 2024 2 15), salary,
           rent ''r3'' (onDay 2024 3 15)]"
    by (simp add: ledger_def rent_def salary_def)
  have b': "filter (\<lambda>t. \<not> (recurringId t = Some ''g1''
                              \<and> getTime (date ?target) \<le> getTime (date t))) ledger
        = [rent ''r0'' (onDay 2024 0 15), salary]"
    using t by (simp add: ledger_def rent_def salary_def)
  from h1 h2 h3 a b a' b' show ?thesis by simp
qed

text \<open>
  C4, as the code has it. When the editor opens on a budget whose recurring map is empty
  or absent and the previous month has a budget with a recurring map, the draft takes,
  for the income goal, the savings goal and each category independently, the previous
  month's value exactly when that field's flag is set, and otherwise the value of the
  budget the editor was opened on; the previous month's flags become the draft's flags.
  When no budget is stored for the current month that budget is the built-in one, so the
  fallback values are 5000, 500 and 0. When the budget the editor was opened on has a
  non-empty recurring map, it is used as it is, with its own flags.
\<close>

theorem carry_forward_from_current_values:
  "(isInitialDefault initB \<and> prevB = Some p \<and> recurring p = Some r \<longrightarrow>
        incomeGoal (fst (openBudgetSetup initB prevB))
          = (if incomeGoalFlag r = Some True then incomeGoal p else incomeGoal initB)
      \<and> savingsGoal (fst (openBudgetSetup initB prevB))
          = (if savingsGoalFlag r = Some True then savingsGoal p else savingsGoal initB)
      \<and> (\<forall>cat. expenseBudgets (fst (openBudgetSetup initB prevB)) cat
          = (if categoryFlagSet r cat then expenseBudgets p cat else expenseBudgets initB cat))
      \<and> snd (openBudgetSetup initB prevB) = r)
   \<and> (budgets (currentMonthKey currentDate) = None
        \<and> budgets (previousMonthKey currentDate) = Some p \<and> recurring p = Some r \<longrightarrow>
        incomeGoal (fst (openBudgetEditor budgets currentDate))
          = (if incomeGoalFlag r = Some True then incomeGoal p else 5000)
      \<and> savingsGoal (fst (openBudgetEditor budgets currentDate))
          = (if savingsGoalFlag r = Some True then savingsGoal p else 500)
      \<and> (\<forall>cat. expenseBudgets (fst (openBudgetEditor budgets currentDate)) cat
          = (if categoryFlagSet r cat then expenseBudgets p cat else Some 0))
      \<and> snd (openBudgetEditor budgets currentDate) = r)
   \<and> (recurring initB = Some r0 \<and> keyCount r0 \<noteq> 0 \<longrightarrow>
        openBudgetSetup initB prevB = (initB, r0))"
proof -
  have carry: "incomeGoal (fst (openBudgetSetup b (Some p)))
          = (if incomeGoalFlag r = Some True then incomeGoal p else incomeGoal b)
      \<and> savingsGoal (fst (openBudgetSetup b (Some p)))
          = (if savingsGoalFlag r = Some True then savingsGoal p else savingsGoal b)
      \<and> (\<forall>cat. expenseBudgets (fst (openBudgetSetup b (Some p))) cat
          = (if categoryFlagSet r cat then expenseBudgets p cat else expenseBudgets b cat))
      \<and> snd (openBudgetSetup b (Some p)) = r"
    if "isInitialDefault b" "recurring p = Some r" for b
    using that
    by (simp add: openBudgetSetup_def categoryFlagSet_def carryExpenseBudgets_apply
        split: option.splits)
  have empty: "isInitialDefault emptyBudget"
    by (simp add: isInitialDefault_def emptyBudget_def noFlags_def keyCount_def)
  have app: "incomeGoal (fst (openBudgetEditor budgets currentDate))
          = (if incomeGoalFlag r = Some True then incomeGoal p else 5000)
      \<and> savingsGoal (fst (openBudgetEditor budgets currentDate))
          = (if savingsGoalFlag r = Some True then savingsGoal p else 500)
      \<and> (\<forall>cat. expenseBudgets (fst (openBudgetEditor budgets currentDate)) cat
          = (if categoryFlagSet r cat then expenseBudgets p cat else Some 0))
      \<and> snd (openBudgetEditor budgets currentDate) = r"
    if "budgets (currentMonthKey currentDate) = None"
      "budgets (previousMonthKey currentDate) = Some p" "recurring p = Some r"
  proof -
    from that have "openBudgetEditor budgets currentDate = openBudgetSetup emptyBudget (Some p)"
      by (simp add: openBudgetEditor_def currentBudget_def previousBudget_def)
    with carry [OF empty that(3)] show ?thesis by (simp add: emptyBudget_def)
  qed
  have asis: "openBudgetSetup initB prevB = (initB, r0)"
    if "recurring initB = Some r0" "keyCount r0 \<noteq> 0"
    using that by (simp add: openBudgetSetup_def isInitialDefault_def)
  from carry [of initB] app asis show ?thesis by blast
qed

theorem carry_forward_from_current_values_witness:
  "isInitialDefault mayBudget \<and> recurring aprilBudget = Some aprilFlags
   \<and> [''2024-04'' \<mapsto> aprilBudget] (currentMonthKey (onDay 2024 4 15)) = None
   \<and> [''2024-04'' \<mapsto> aprilBudget] (previousMonthKey (onDay 2024 4 15)) = Some aprilBudget
   \<and> keyCount aprilFlags \<noteq> 0
   \<and> incomeGoal (fst (openBudgetSetup mayBudget (Some aprilBudget))) = 7000
   \<and> savingsGoal (fst (openBudgetSetup mayBudget (Some aprilBudget))) = 600
   \<and> snd (openBudgetSetup mayBudget (Some aprilBudget)) = aprilFlags
   \<and> incomeGoal (fst (openBudgetEditor [''2024-04'' \<mapsto> aprilBudget] (onDay 2024 4 15))) = 5000
   \<and> savingsGoal (fst (openBudgetEditor [''2024-04'' \<mapsto> aprilBudget] (onDay 2024 4 15))) = 600
   \<and> openBudgetSetup aprilBudget (Some mayBudget) = (aprilBudget, aprilFlags)"
proof -
  have h1: "isInitialDefault mayBudget"
    by (simp add: isInitialDefault_def mayBudget_def noFlags_def keyCount_def)
  have h2: "recurring aprilBudget = Some aprilFlags"
    by (simp add: aprilBudget_def)
  have h3: "[''2024-04'' \<mapsto> aprilBudget] (currentMonthKey (onDay 2024 4 15)) = None"
    by (simp add: may_keys)
  have h4: "[''2024-04'' \<mapsto> aprilBudget] (previousMonthKey (onDay 2024 4 15)) = Some aprilBudget"
    by (simp add: may_keys)
  have h5: "keyCount aprilFlags \<noteq> 0"
    by (simp add: keyCount_def aprilFlags_def noFlags_def)
  have f: "incomeGoalFlag aprilFlags = None" "savingsGoalFlag aprilFlags = Some True"
    by (simp_all add: aprilFlags_def noFlags_def)
  have v: "incomeGoal mayBudget = 7000" "savingsGoal aprilBudget = 600"
    by (simp_all add: mayBudget_def aprilBudget_def)
  from carry_forward_from_current_values
         [of mayBudget "Some aprilBudget" aprilBudget aprilFlags] h1 h2 f v
  have a: "incomeGoal (fst (openBudgetSetup mayBudget (Some aprilBudget))) = 7000
      \<and> savingsGoal (fst (openBudgetSetup mayBudget (Some aprilBudget))) = 600
      \<and> snd (openBudgetSetup mayBudget (Some aprilBudget)) = aprilFlags"
    by simp
  from carry_forward_from_current_values
         [of _ _ aprilBudget aprilFlags "[''2024-04'' \<mapsto> aprilBudget]" "onDay 2024 4 15"]
       h2 h3 h4 f v
  have b: "incomeGoal (fst (openBudgetEditor [''2024-04'' \<mapsto> aprilBudget] (onDay 2024 4 15))) = 5000
      \<and> savingsGoal (fst (openBudgetEditor [''2024-04'' \<mapsto> aprilBudget] (onDay 2024 4 15))) = 600"
    by simp
  from carry_forward_from_current_values
         [of aprilBudget "Some mayBudget" _ _ _ _ aprilFlags] h2 h5
  have c: "openBudgetSetup aprilBudget (Some mayBudget) = (aprilBudget, aprilFlags)"
    by simp
  from h1 h2 h3 h4 h5 a b c show ?thesis by simp
qed

text \<open>
  C4, as stated, fails: May 2024 has a stored budget with an empty recurring map and an
  income goal of 7000, April 2024 has a budget whose recurring map flags the savings goal
  only. The draft's income goal is the stored 7000, not the built-in default 5000.
\<close>

theorem carry_forward_default_counterexample:
  "storedBudgets (currentMonthKey (onDay 2024 4 15)) = Some mayBudget
   \<and> recurring mayBudget = Some noFlags \<and> keyCount noFlags = 0
   \<and> storedBudgets (previousMonthKey (onDay 2024 4 15)) = Some aprilBudget
   \<and> recurring aprilBudget = Some aprilFlags
   \<and> incomeGoalFlag aprilFlags = None
   \<and> incomeGoal (fst (openBudgetEditor storedBudgets (onDay 2024 4 15))) = 7000
   \<and> incomeGoal (fst (openBudgetEditor storedBudgets (onDay 2024 4 15))) \<noteq> 5000"
  by (simp add: may_keys storedBudgets_def mayBudget_def aprilBudget_def aprilFlags_def
      noFlags_def keyCount_def openBudgetEditor_def currentBudget_def previousBudget_def
      openBudgetSetup_def isInitialDefault_def)

text \<open>
  C5. The month keys on 31 March 2024: the current key is \<^verbatim>\<open>2024-03\<close>, and the previous
  key is \<^verbatim>\<open>2024-03\<close> as well, not \<^verbatim>\<open>2024-02\<close>: \<^verbatim>\<open>setMonth\<close> is applied to the 31st, and
  31 February rolls over into March. From the 28th the previous key is \<^verbatim>\<open>2024-02\<close>, and
  month navigation, which sets the day to 1 first, reaches February from the 31st.
\<close>

theorem previousMonthKey_on_day_31:
  "currentMonthKey (onDay 2024 2 31) = ''2024-03''
   \<and> previousMonthKey (onDay 2024 2 31) = ''2024-03''
   \<and> previousMonthKey (onDay 2024 2 28) = ''2024-02''
   \<and> monthIndex (handleMonthChange (onDay 2024 2 31) ''prev'') = monthIndex (onDay 2024 2 31) - 1"
  by code_simp

text \<open>
  C6. Editing with scope \<^verbatim>\<open>'this'\<close>: the result is the collection with the transactions
  whose identifier equals the edited one's replaced by the edited transaction, and every
  other position unchanged. The transaction the edit modal passes on keeps the identifier
  and the group identifier of the transaction it was opened on; when that transaction
  is stored in a collection with unique identifiers, every position of the result keeps
  its identifier and its group identifier.
\<close>

theorem update_this_replaces_only_match:
  "handleUpdateTransaction ts U ''this'' = map (\<lambda>t. if id_t t = id_t U then U else t) ts
   \<and> (\<forall>i<length ts. id_t (ts ! i) \<noteq> id_t U \<longrightarrow>
          handleUpdateTransaction ts U ''this'' ! i = ts ! i)
   \<and> (\<forall>i<length ts. id_t (ts ! i) = id_t U \<longrightarrow>
          handleUpdateTransaction ts U ''this'' ! i = U)
   \<and> (handleUpdate parseFloat modal tr ''this'' = Invoked (V, sc) \<longrightarrow>
          sc = ''this'' \<and> id_t V = id_t tr \<and> recurringId V = recurringId tr
          \<and> submitEditModal parseFloat modal tr ''this'' ts
              = map (\<lambda>t. if id_t t = id_t tr then V else t) ts)
   \<and> (handleUpdate parseFloat modal tr ''this'' = Invoked (V, sc)
        \<and> distinct (map id_t ts) \<and> tr \<in> set ts \<longrightarrow>
          (\<forall>i<length ts.
             id_t (submitEditModal parseFloat modal tr ''this'' ts ! i) = id_t (ts ! i)
             \<and> recurringId (submitEditModal parseFloat modal tr ''this'' ts ! i)
                 = recurringId (ts ! i)))"
proof -
  have eq: "handleUpdateTransaction ts W ''this'' = map (\<lambda>t. if id_t t = id_t W then W else t) ts"
    for W by (simp add: handleUpdateTransaction_def)
  have modal: "sc = ''this'' \<and> id_t V = id_t tr \<and> recurringId V = recurringId tr
          \<and> submitEditModal parseFloat modal tr ''this'' ts
              = map (\<lambda>t. if id_t t = id_t tr then V else t) ts"
    if inv: "handleUpdate parseFloat modal tr ''this'' = Invoked (V, sc)"
  proof -
    from handleUpdate_Invoked [OF inv]
    have f: "id_t V = id_t tr" "recurringId V = recurringId tr" "sc = ''this''" by simp_all
    from inv f eq [of V] have "submitEditModal parseFloat modal tr ''this'' ts
              = map (\<lambda>t. if id_t t = id_t tr then V else t) ts"
      by (simp add: submitEditModal_def)
    with f show ?thesis by simp
  qed
  have kept: "id_t (submitEditModal parseFloat modal tr ''this'' ts ! i) = id_t (ts ! i)
             \<and> recurringId (submitEditModal parseFloat modal tr ''this'' ts ! i)
                 = recurringId (ts ! i)"
    if inv: "handleUpdate parseFloat modal tr ''this'' = Invoked (V, sc)"
      and ids: "distinct (map id_t ts)" and tr: "tr \<in> set ts" and i: "i < length ts" for i
  proof (cases "id_t (ts ! i) = id_t tr")
    case True
    from ids have "inj_on id_t (set ts)" by (simp add: distinct_map)
    with True tr i have "ts ! i = tr" by (auto dest: inj_onD)
    with modal [OF inv] i show ?thesis by simp
  next
    case False
    with modal [OF inv] i show ?thesis by simp
  qed
  from eq [of U] modal kept show ?thesis by simp
qed

theorem update_this_replaces_only_match_witness:
  "handleUpdate sampleParse goodModal salary ''this'' =
      Invoked (salary\<lparr>description := ''Bonus'', amount := 12.5, type_t := Income,
                 category := None, date := setFullYear (date salary) 2024 1 20\<rparr>, ''this'')
   \<and> distinct (map id_t ledger) \<and> salary \<in> set ledger
   \<and> submitEditModal sampleParse goodModal salary ''this'' ledger
      = [rent ''r0'' (onDay 2024 0 15), rent ''r2'' (onDay 2024 2 15),
         salary\<lparr>description := ''Bonus'', amount := 12.5, type_t := Income,
                 category := None, date := setFullYear (date salary) 2024 1 20\<rparr>,
         rent ''r1'' (onDay 2024 1 15), rent ''r3'' (onDay 2024 3 15)]
   \<and> recurringId (submitEditModal sampleParse goodModal salary ''this'' ledger ! 2)
      = recurringId (ledger ! 2)"
proof -
  let ?V = "salary\<lparr>description := ''Bonus'', amount := 12.5, type_t := Income,
                 category := None, date := setFullYear (date salary) 2024 1 20\<rparr>"
  have h: "handleUpdate sampleParse goodModal salary ''this'' = Invoked (?V, ''this'')"
    by (simp add: handleUpdate_def sampleParse_def goodModal_def)
  have h2: "distinct (map id_t ledger)"
    by (simp add: ledger_def rent_def salary_def)
  have h3: "salary \<in> set ledger"
    by (simp add: ledger_def)
  have h4: "(2::nat) < length ledger"
    by (simp add: ledger_def)
  note inst = update_this_replaces_only_match
      [of ledger ?V sampleParse goodModal salary ?V "''this''"]
  from inst h
  have "submitEditModal sampleParse goodModal salary ''this'' ledger
              = map (\<lambda>t. if id_t t = id_t salary then ?V else t) ledger"
    by simp
  also have "\<dots> = [rent ''r0'' (onDay 2024 0 15), rent ''r2'' (onDay 2024 2 15), ?V,
         rent ''r1'' (onDay 2024 1 15), rent ''r3'' (onDay 2024 3 15)]"
    by (simp add: ledger_def rent_def salary_def)
  finally have a: "submitEditModal sampleParse goodModal salary ''this'' ledger
      = [rent ''r0'' (onDay 2024 0 15), rent ''r2'' (onDay 2024 2 15), ?V,
         rent ''r1'' (onDay 2024 1 15), rent ''r3'' (onDay 2024 3 15)]" .
  from inst h h2 h3 h4
  have b: "recurringId (submitEditModal sampleParse goodModal salary ''this'' ledger ! 2)
      = recurringId (ledger ! 2)"
    by blast
  from h h2 h3 a b show ?thesis by simp
qed

text \<open>
  C7. An update (any scope) or a delete (any group identifier, either answer of the
  confirmation) that names an identifier absent from the collection returns the
  collection unchanged. The handlers are total functions without an error result.
\<close>

theorem update_or_delete_absent_is_noop:
  "(id_t U \<notin> id_t ` set ts \<longrightarrow> handleUpdateTransaction ts U scope = ts)
   \<and> (ident \<notin> id_t ` set ts \<longrightarrow> handleDeleteTransaction ts ident rid confirmed = ts)"
  by (simp add: update_absent delete_absent)

theorem update_or_delete_absent_is_noop_witness:
  "id_t (rent ''r9'' (onDay 2024 5 1)) \<notin> id_t ` set ledger
   \<and> ''r9'' \<notin> id_t ` set ledger
   \<and> handleUpdateTransaction ledger (rent ''r9'' (onDay 2024 5 1)) ''future'' = ledger
   \<and> handleUpdateTransaction ledger (rent ''r9'' (onDay 2024 5 1)) ''this'' = ledger
   \<and> handleDeleteTransaction ledger ''r9'' (Some ''g1'') True = ledger
   \<and> handleDeleteTransaction ledger ''r9'' (Some ''g1'') False = ledger
   \<and> handleDeleteTransaction ledger ''r9'' None False = ledger"
proof -
  have h1: "id_t (rent ''r9'' (onDay 2024 5 1)) \<notin> id_t ` set ledger"
    by (simp add: ledger_def rent_def salary_def)
  have h2: "''r9'' \<notin> id_t ` set ledger"
    by (simp add: ledger_def rent_def salary_def)
  from h1 h2
    update_or_delete_absent_is_noop [of "rent ''r9'' (onDay 2024 5 1)" ledger _ "''r9''"]
  show ?thesis by simp
qed

text \<open>
  C8. A submission of the add form or of the edit modal with an empty description, an
  amount that does not parse, or a parsed amount that is not positive sets the validation
  message and does not call the add or update operation: the collection is unchanged.
\<close>

theorem invalid_entry_is_rejected:
  "(descriptionInput form = [] \<or> parseFloat (amountInput form) = None
      \<or> (\<exists>a. parseFloat (amountInput form) = Some a \<and> a \<le> 0) \<longrightarrow>
        handleSubmit parseFloat form currentDate = Rejected validationMessage
        \<and> submitTransactionForm uuidv4 parseFloat form currentDate ts = ts)
   \<and> (descriptionEdit modal = [] \<or> parseFloat (amountEdit modal) = None
      \<or> (\<exists>a. parseFloat (amountEdit modal) = Some a \<and> a \<le> 0) \<longrightarrow>
        handleUpdate parseFloat modal tr scope = Rejected validationMessage
        \<and> submitEditModal parseFloat modal tr scope ts = ts)"
proof (intro conjI impI)
  assume bad: "descriptionInput form = [] \<or> parseFloat (amountInput form) = None
      \<or> (\<exists>a. parseFloat (amountInput form) = Some a \<and> a \<le> 0)"
  then show rej: "handleSubmit parseFloat form currentDate = Rejected validationMessage"
    by (auto simp: handleSubmit_def split: option.splits)
  then show "submitTransactionForm uuidv4 parseFloat form currentDate ts = ts"
    by (simp add: submitTransactionForm_def)
next
  assume bad: "descriptionEdit modal = [] \<or> parseFloat (amountEdit modal) = None
      \<or> (\<exists>a. parseFloat (amountEdit modal) = Some a \<and> a \<le> 0)"
  then show rej: "handleUpdate parseFloat modal tr scope = Rejected validationMessage"
    by (auto simp: handleUpdate_def split: option.splits)
  then show "submitEditModal parseFloat modal tr scope ts = ts"
    by (simp add: submitEditModal_def)
qed

theorem invalid_entry_is_rejected_witness:
  "sampleParse (amountInput badForm) = Some (- 3)
   \<and> descriptionEdit badModal = []
   \<and> handleSubmit sampleParse badForm (onDay 2024 0 31) = Rejected validationMessage
   \<and> submitTransactionForm sampleUuid sampleParse badForm (onDay 2024 0 31) ledger = ledger
   \<and> handleUpdate sampleParse badModal salary ''future'' = Rejected validationMessage
   \<and> submitEditModal sampleParse badModal salary ''future'' ledger = ledger"
proof -
  have h1: "sampleParse (amountInput badForm) = Some (- 3)"
    by (simp add: sampleParse_def badForm_def)
  have h2: "descriptionEdit badModal = []"
    by (simp add: badModal_def)
  from h1 h2
    invalid_entry_is_rejected [of badForm sampleParse "onDay 2024 0 31" sampleUuid ledger
      badModal salary "''future''"]
  show ?thesis by simp
qed

text \<open>
  C9. If every stored transaction has a positive amount and a category exactly when it is
  an expense, the same holds after submitting the add form (any input, any repeat count),
  after submitting the edit modal (any input, either scope, any edited transaction), and
  after deleting (any identifier, group identifier and confirmation answer).
\<close>

theorem invariant_preserved:
  assumes "list_all valid_transaction ts"
  shows "list_all valid_transaction (submitTransactionForm uuidv4 parseFloat form currentDate ts)
       \<and> list_all valid_transaction (submitEditModal parseFloat modal tr scope ts)
       \<and> list_all valid_transaction (handleDeleteTransaction ts ident rid confirmed)"
proof (intro conjI)
  show "list_all valid_transaction (submitTransactionForm uuidv4 parseFloat form currentDate ts)"
  proof (cases "handleSubmit parseFloat form currentDate")
    case (Invoked args)
    obtain d r where args: "args = (d, r)" by (cases args) auto
    with Invoked have "valid_transaction d" by (simp add: handleSubmit_valid)
    with assms Invoked args show ?thesis
      by (simp add: submitTransactionForm_def handleAdd_valid)
  qed (simp_all add: submitTransactionForm_def assms)
next
  show "list_all valid_transaction (submitEditModal parseFloat modal tr scope ts)"
  proof (cases "handleUpdate parseFloat modal tr scope")
    case (Invoked args)
    obtain u sc where args: "args = (u, sc)" by (cases args) auto
    with Invoked have "valid_transaction u" using handleUpdate_Invoked by blast
    with assms Invoked args show ?thesis
      by (simp add: submitEditModal_def handleUpdateTransaction_valid)
  qed (simp_all add: submitEditModal_def assms)
next
  show "list_all valid_transaction (handleDeleteTransaction ts ident rid confirmed)"
    using assms by (rule handleDelete_valid)
qed

theorem invariant_preserved_witness:
  "list_all valid_transaction ledger
   \<and> list_all valid_transaction
       (submitTransactionForm sampleUuid sampleParse goodForm (onDay 2024 0 31) ledger)
   \<and> list_all valid_transaction
       (submitEditModal sampleParse goodModal (rent ''r1'' (onDay 2024 1 15)) ''future'' ledger)
   \<and> list_all valid_transaction (handleDeleteTransaction ledger ''r1'' (Some ''g1'') True)"
proof -
  have h: "list_all valid_transaction ledger"
    by (simp add: ledger_def rent_def salary_def valid_transaction_def)
  from invariant_preserved [OF h] h show ?thesis by simp
qed

text \<open>
  C10. Month navigation first sets the day of the month to 1 and then shifts the month.
  For every current date, whatever its day of the month, and for either direction, the
  result is the first day of the adjacent calendar month: the count of months moves by
  exactly one (forwards for \<^verbatim>\<open>'next'\<close>, backwards otherwise), the month number stays within
  0..11 (so the year rolls over with it), and the time within the day is kept.
\<close>

theorem handleMonthChange_adjacent_month:
  "monthIndex (handleMonthChange d direction)
       = monthIndex d + (if direction = ''next'' then 1 else - 1)
   \<and> getDate (handleMonthChange d direction) = 1
   \<and> 0 \<le> getMonth (handleMonthChange d direction)
   \<and> getMonth (handleMonthChange d direction) < 12
   \<and> msInDay (handleMonthChange d direction) = msInDay d"
  by (simp add: handleMonthChange_fields Let_def monthIndex_def getFullYear_def getMonth_def
      getDate_def)

end
